theory Spec2Isabelle
  imports
    Complex_Main
    "HOL-Library.Multiset"
    "HOL-Library.Char_ord"
    "HOL-Library.List_Lexorder"
    "HOL-Library.Option_ord"
begin

section \<open>Data model\<close>

text \<open>
  The dashboard script \<^verbatim>\<open>app.py\<close> loads one table and derives every view from it.
  One line of the table is a \<^verbatim>\<open>row\<close>. A pandas cell can be missing (NaN): every
  column is an \<open>option\<close>, with \<open>None\<close> for the missing marker that
  \<^verbatim>\<open>pd.to_numeric(..., errors="coerce")\<close> and \<^verbatim>\<open>read_csv\<close> produce.

  Numeric cells are modelled as exact rationals: the rounding error of IEEE double
  arithmetic is not modelled, and a present cell is finite. City names are byte strings,
  ordered lexicographically as Python orders \<^verbatim>\<open>str\<close>.
\<close>

record row =
  CustLocation :: "string option"
  Cluster :: "int option"
  CustomerCount :: "rat option"
  AvgAge :: "rat option"
  AvgRecency :: "rat option"
  AvgFrequency :: "rat option"
  AvgAvgMonetary :: "rat option"
  AvgTotalMonetary :: "rat option"

type_synonym dataframe = "row list"

datatype py_error = TypeError | ZeroDivisionError

section \<open>The pandas operations the script uses\<close>

text \<open>\<^verbatim>\<open>Series.dropna()\<close>: the present values, in order.\<close>

fun dropna :: "'a option list \<Rightarrow> 'a list" where
  "dropna [] = []"
| "dropna (None # xs) = dropna xs"
| "dropna (Some x # xs) = x # dropna xs"

text \<open>\<^verbatim>\<open>Series.unique()\<close>: the distinct values in order of first appearance.\<close>

definition unique :: "'a list \<Rightarrow> 'a list" where
  "unique xs = rev (remdups (rev xs))"

text \<open>
  \<^verbatim>\<open>Series.isin(values)\<close> where \<open>values\<close> holds no missing marker: a missing cell is
  never a member. The two selections come from \<^verbatim>\<open>st.multiselect\<close> over
  \<^verbatim>\<open>all_cities\<close> and \<^verbatim>\<open>all_clusters\<close>, which are built with \<^verbatim>\<open>dropna()\<close>.
\<close>

definition isin :: "'a option \<Rightarrow> 'a list \<Rightarrow> bool" where
  "isin c vals = (case c of None \<Rightarrow> False | Some v \<Rightarrow> v \<in> set vals)"

text \<open>\<^verbatim>\<open>Series.sum()\<close> skips missing cells; the sum of no cell is 0.\<close>

definition sum_skipna :: "rat option list \<Rightarrow> rat" where
  "sum_skipna xs = sum_list (dropna xs)"

text \<open>\<^verbatim>\<open>Series.mean()\<close> skips missing cells; the mean of no present cell is missing.\<close>

definition mean_skipna :: "rat option list \<Rightarrow> rat option" where
  "mean_skipna xs =
     (let ys = dropna xs in
      if ys = [] then None else Some (sum_list ys / of_nat (length ys)))"

text \<open>
  \<^verbatim>\<open>df.groupby(key)\<close> with the defaults \<^verbatim>\<open>sort=True, dropna=True\<close>: one group per
  distinct present key, the groups in ascending key order, each group holding its rows in
  the frame's order.
\<close>

definition group_keys :: "(row \<Rightarrow> 'k::linorder option) \<Rightarrow> dataframe \<Rightarrow> 'k list" where
  "group_keys key rows = sort (unique (dropna (map key rows)))"

definition group_rows :: "(row \<Rightarrow> 'k option) \<Rightarrow> dataframe \<Rightarrow> 'k \<Rightarrow> dataframe" where
  "group_rows key rows k = filter (\<lambda>r. key r = Some k) rows"

definition groupby_sum ::
  "(row \<Rightarrow> 'k::linorder option) \<Rightarrow> (row \<Rightarrow> rat option) \<Rightarrow> dataframe \<Rightarrow> ('k \<times> rat) list" where
  "groupby_sum key val rows =
     map (\<lambda>k. (k, sum_skipna (map val (group_rows key rows k)))) (group_keys key rows)"


text \<open>
  \<^verbatim>\<open>Series.sort_values(ascending=False)\<close> on a series without missing values: the
  entries in descending order of value. pandas sorts with numpy's quicksort, which is not
  stable, so the order it leaves among entries of equal value is not fixed by the
  series. The model takes that order as a parameter \<open>rank\<close>: among entries of equal
  value one of smaller rank comes first, and entries of equal rank keep the order of the
  series. On a series with distinct keys every order a sort can leave among equal values
  is the order of some \<open>rank\<close>.
\<close>

definition sort_values_desc :: "('k \<Rightarrow> nat) \<Rightarrow> ('k \<times> rat) list \<Rightarrow> ('k \<times> rat) list" where
  "sort_values_desc rank s =
     sort_key (\<lambda>kv. - snd kv) (sort_key (\<lambda>kv. rank (fst kv)) s)"

section \<open>Sidebar option lists\<close>

definition all_cities :: "dataframe \<Rightarrow> string list" where
  "all_cities df = sort (unique (dropna (map CustLocation df)))"

definition all_clusters :: "dataframe \<Rightarrow> int list" where
  "all_clusters df = sort (unique (dropna (map Cluster df)))"

section \<open>Base filtered frame\<close>

text \<open>
  \<^verbatim>\<open>fdf_base = df[df["CustLocation"].isin(city_sel) & df["Cluster"].isin(cluster_sel)]\<close>
\<close>

definition select_rows :: "dataframe \<Rightarrow> string list \<Rightarrow> int list \<Rightarrow> dataframe" where
  "select_rows df city_sel cluster_sel =
     filter (\<lambda>r. isin (CustLocation r) city_sel \<and> isin (Cluster r) cluster_sel) df"

text \<open>
  The cities kept by the Top-N branch:
  \<^verbatim>\<open>groupby("CustLocation")["CustomerCount"].sum().sort_values(ascending=False).head(topn).index\<close>
\<close>

definition city_totals_all :: "(string \<Rightarrow> nat) \<Rightarrow> dataframe \<Rightarrow> (string \<times> rat) list" where
  "city_totals_all rank rows =
     sort_values_desc rank (groupby_sum CustLocation CustomerCount rows)"

definition keep_cities :: "(string \<Rightarrow> nat) \<Rightarrow> nat \<Rightarrow> dataframe \<Rightarrow> string list" where
  "keep_cities rank topn rows = map fst (take topn (city_totals_all rank rows))"

text \<open>
  \<open>topn\<close> is \<open>None\<close> when the Top-N checkbox is off. \<^verbatim>\<open>if topn:\<close> is false for
  \<open>None\<close> and for 0.
\<close>

definition fdf_base ::
  "(string \<Rightarrow> nat) \<Rightarrow> dataframe \<Rightarrow> string list \<Rightarrow> int list \<Rightarrow> nat option \<Rightarrow> dataframe" where
  "fdf_base rank df city_sel cluster_sel topn =
     (let base = select_rows df city_sel cluster_sel in
      case topn of
        None \<Rightarrow> base
      | Some n \<Rightarrow>
          if n = 0 then base
          else filter (\<lambda>r. isin (CustLocation r) (keep_cities rank n base)) base)"

section \<open>City pagination\<close>

text \<open>
  Python's \<^verbatim>\<open>sorted\<close> on the list of distinct city cells. A missing city is the float
  NaN: comparing it with a \<^verbatim>\<open>str\<close> raises \<^verbatim>\<open>TypeError\<close>, which any sort of a list
  holding both must do.
\<close>

definition py_sorted :: "string option list \<Rightarrow> py_error + string option list" where
  "py_sorted xs =
     (if None \<in> set xs \<and> dropna xs \<noteq> [] then Inl TypeError else Inr (sort xs))"

text \<open>
  Python's slice \<^verbatim>\<open>xs[start:end]\<close>: a negative bound counts from the end, and both
  bounds are cut to the list.
\<close>

definition py_slice :: "'a list \<Rightarrow> int \<Rightarrow> int \<Rightarrow> 'a list" where
  "py_slice xs start end' =
     (let n = int (length xs);
          s = (if start < 0 then max 0 (start + n) else min start n);
          e = (if end' < 0 then max 0 (end' + n) else min end' n)
      in if s < e then take (nat (e - s)) (drop (nat s) xs) else [])"

text \<open>
  \<^verbatim>\<open>max(1, math.ceil(len(candidate_cities) / page_size))\<close>; the division raises for a
  page size of 0.
\<close>

definition total_pages_of :: "nat \<Rightarrow> int \<Rightarrow> py_error + int" where
  "total_pages_of n page_size =
     (if page_size = 0 then Inl ZeroDivisionError
      else Inr (max 1 (\<lceil>(of_nat n :: rat) / of_int page_size\<rceil>)))"

text \<open>
  \<^verbatim>\<open>st.sidebar.number_input("City page", min_value=1, max_value=total_pages, ...)\<close>
  (line 150): whatever is entered, the widget hands the script a value between its two
  bounds. An entry outside the bounds is cut to the nearer bound.
\<close>

definition number_input :: "int \<Rightarrow> int \<Rightarrow> int \<Rightarrow> int" where
  "number_input min_value max_value entered = max min_value (min max_value entered)"

text \<open>
  The variables the script holds after the pagination block (lines 144--154). With
  \<^verbatim>\<open>show_all\<close> the script assigns no \<^verbatim>\<open>total_pages\<close>: the field is \<open>None\<close>.
  \<open>entered\<close> is what the user enters in the number input \<^verbatim>\<open>City page\<close>.
\<close>

record page_view =
  fdf :: dataframe
  current_cities :: "string option list"
  total_pages :: "int option"

definition paginate :: "dataframe \<Rightarrow> int \<Rightarrow> bool \<Rightarrow> int \<Rightarrow> py_error + page_view" where
  "paginate base page_size show_all entered =
     (case py_sorted (unique (map CustLocation base)) of
        Inl e \<Rightarrow> Inl e
      | Inr candidate_cities \<Rightarrow>
          if show_all then
            Inr \<lparr>fdf = base, current_cities = candidate_cities, total_pages = None\<rparr>
          else
            (case total_pages_of (length candidate_cities) page_size of
               Inl e \<Rightarrow> Inl e
             | Inr tp \<Rightarrow>
                 let page = number_input 1 tp entered;
                     start = (page - 1) * page_size;
                     end' = start + page_size;
                     cur = py_slice candidate_cities start end'
                 in Inr \<lparr>fdf = filter (\<lambda>r. CustLocation r \<in> set cur) base,
                         current_cities = cur,
                         total_pages = Some tp\<rparr>))"


section \<open>KPI row\<close>

text \<open>
  The quotient of two numpy scalars: division by zero gives NaN or an infinity (with a
  warning), it does not raise.
\<close>

datatype np_float = Finite rat | NaN | PosInf | NegInf

definition np_divide :: "rat \<Rightarrow> rat \<Rightarrow> np_float" where
  "np_divide a b =
     (if b \<noteq> 0 then Finite (a / b)
      else if a = 0 then NaN
      else if 0 < a then PosInf else NegInf)"

text \<open>The product of two cells is missing when either is.\<close>

definition mul_na :: "rat option \<Rightarrow> rat option \<Rightarrow> rat option" where
  "mul_na a b = (case (a, b) of (Some x, Some y) \<Rightarrow> Some (x * y) | _ \<Rightarrow> None)"

text \<open>\<^verbatim>\<open>int(x)\<close> on a float truncates towards zero.\<close>

definition py_int :: "rat \<Rightarrow> int" where
  "py_int x = (if 0 \<le> x then \<lfloor>x\<rfloor> else \<lceil>x\<rceil>)"

definition total_customers :: "dataframe \<Rightarrow> int" where
  "total_customers df = py_int (sum_skipna (map CustomerCount df))"

definition weighted_spend :: "dataframe \<Rightarrow> np_float" where
  "weighted_spend df =
     np_divide
       (sum_skipna (map (\<lambda>r. mul_na (AvgTotalMonetary r) (CustomerCount r)) df))
       (sum_skipna (map CustomerCount df))"

section \<open>City profile, normalised\<close>



text \<open>\<^verbatim>\<open>Series.max()\<close> and \<^verbatim>\<open>Series.min()\<close> skip missing cells and are missing on none.\<close>

definition col_max :: "rat option list \<Rightarrow> rat option" where
  "col_max xs = (case dropna xs of [] \<Rightarrow> None | y # ys \<Rightarrow> Some (fold max ys y))"

definition col_min :: "rat option list \<Rightarrow> rat option" where
  "col_min xs = (case dropna xs of [] \<Rightarrow> None | y # ys \<Rightarrow> Some (fold min ys y))"





section \<open>Segment summary\<close>

text \<open>
  \<^verbatim>\<open>DataFrame.round(2)\<close>, that is \<^verbatim>\<open>numpy.round(x, 2)\<close>: scale by 100, round to the
  nearest integer, scale back. In exact arithmetic a value can lie exactly half-way
  between two hundredths (1.255); the double the script holds at such a value does not
  (the double nearest to 1.255 is below it), so the neighbour the script returns there
  is decided by the double, not by the exact value. The model leaves it open: the
  parameter \<open>up\<close> says, for a scaled value exactly half-way between two integers,
  whether the upper one is returned.
\<close>

definition rint :: "(rat \<Rightarrow> bool) \<Rightarrow> rat \<Rightarrow> int" where
  "rint up x =
     (let f = \<lfloor>x\<rfloor>; d = x - of_int f in
      if d < 1 / 2 then f
      else if 1 / 2 < d then f + 1
      else if up x then f + 1 else f)"

definition round2 :: "(rat \<Rightarrow> bool) \<Rightarrow> rat \<Rightarrow> rat" where
  "round2 up x = of_int (rint up (x * 100)) / 100"

record seg_row =
  seg_Cluster :: int
  seg_CustomerCount :: rat
  seg_AvgAge :: "rat option"
  seg_AvgFrequency :: "rat option"
  seg_AvgTotalMonetary :: "rat option"
  seg_AvgRecency :: "rat option"

text \<open>
  \<^verbatim>\<open>fdf.groupby("Cluster")[...].agg({"CustomerCount": "sum", others: "mean"}).round(2).reset_index()\<close>
\<close>

definition seg_summary :: "(rat \<Rightarrow> bool) \<Rightarrow> dataframe \<Rightarrow> seg_row list" where
  "seg_summary up rows =
     map (\<lambda>k.
        let g = group_rows Cluster rows k in
        \<lparr>seg_Cluster = k,
         seg_CustomerCount = round2 up (sum_skipna (map CustomerCount g)),
         seg_AvgAge = map_option (round2 up) (mean_skipna (map AvgAge g)),
         seg_AvgFrequency = map_option (round2 up) (mean_skipna (map AvgFrequency g)),
         seg_AvgTotalMonetary = map_option (round2 up) (mean_skipna (map AvgTotalMonetary g)),
         seg_AvgRecency = map_option (round2 up) (mean_skipna (map AvgRecency g))\<rparr>)
       (group_keys Cluster rows)"

section \<open>Strategy suggestions\<close>

text \<open>\<^verbatim>\<open>Series.median()\<close>: over the present cells, missing when there is none.\<close>

definition median :: "rat option list \<Rightarrow> rat option" where
  "median xs =
     (let s = sort (dropna xs); n = length s in
      if n = 0 then None
      else if odd n then Some (s ! (n div 2))
      else Some ((s ! (n div 2 - 1) + s ! (n div 2)) / 2))"

text \<open>\<^verbatim>\<open>a >= b\<close> on floats is false when either side is NaN.\<close>

definition ge_na :: "rat option \<Rightarrow> rat option \<Rightarrow> bool" where
  "ge_na a b = (case (a, b) of (Some x, Some y) \<Rightarrow> y \<le> x | _ \<Rightarrow> False)"

text \<open>
  \<^verbatim>\<open>seg_summary.sort_values("AvgTotalMonetary", ascending=False)\<close>: the rows with a
  present value in descending order, then the rows with a missing value. As for
  \<open>sort_values_desc\<close>, the order the unstable sort leaves among rows of equal value is
  the parameter \<open>rank\<close>.
\<close>

definition sort_by_spend_desc :: "(seg_row \<Rightarrow> nat) \<Rightarrow> seg_row list \<Rightarrow> seg_row list" where
  "sort_by_spend_desc rank s =
     sort_key (\<lambda>r. - the (seg_AvgTotalMonetary r))
       (sort_key rank (filter (\<lambda>r. seg_AvgTotalMonetary r \<noteq> None) s))
     @ sort_key rank (filter (\<lambda>r. seg_AvgTotalMonetary r = None) s)"

datatype bucket = Premium | ValueAdd | CrossSell | ReEngagement

text \<open>
  The \<^verbatim>\<open>if/elif\<close> chain at lines 373--380; each branch appends one message naming the
  cluster, kept here as the cluster id and the bucket of the message.
\<close>

definition classify_row :: "rat option \<Rightarrow> rat option \<Rightarrow> seg_row \<Rightarrow> int \<times> bucket" where
  "classify_row med_spend med_freq r =
     (seg_Cluster r,
      if ge_na (seg_AvgTotalMonetary r) med_spend \<and> ge_na (seg_AvgFrequency r) med_freq
        then Premium
      else if ge_na (seg_AvgTotalMonetary r) med_spend then ValueAdd
      else if ge_na (seg_AvgFrequency r) med_freq then CrossSell
      else ReEngagement)"

definition recs :: "(seg_row \<Rightarrow> nat) \<Rightarrow> seg_row list \<Rightarrow> (int \<times> bucket) list" where
  "recs rank summary =
     (if summary = [] then []
      else
        let med_spend = median (map seg_AvgTotalMonetary summary);
            med_freq = median (map seg_AvgFrequency summary)
        in map (classify_row med_spend med_freq) (sort_by_spend_desc rank summary))"

section \<open>The download\<close>

text \<open>
  The columns of the loaded table, in the order of \<^verbatim>\<open>required_cols\<close> (lines 101--104).
  A file may carry further numeric columns, which the script passes through untouched;
  the model has the required ones only. Selecting rows of a frame keeps its columns.
\<close>

definition required_cols :: "string list" where
  "required_cols =
     [''CustLocation'', ''Cluster'', ''CustomerCount'', ''AvgAge'', ''AvgRecency'',
      ''AvgFrequency'', ''AvgAvgMonetary'', ''AvgTotalMonetary'']"

text \<open>
  \<^verbatim>\<open>fdf.to_csv(index=False)\<close> writes a delimited text: a header line with the column
  names of the frame, then one line per row of the frame, in the frame's order, with one
  field per column in the order of the header; a missing cell gives an empty field. The
  text is kept here as its lines and each line as its fields; how a number is printed,
  the delimiter, the quoting and the line ends are the library's and are not modelled.
\<close>

datatype cell = Text string | Number rat | Empty

definition text_cell :: "string option \<Rightarrow> cell" where
  "text_cell c = (case c of None \<Rightarrow> Empty | Some s \<Rightarrow> Text s)"

definition int_cell :: "int option \<Rightarrow> cell" where
  "int_cell c = (case c of None \<Rightarrow> Empty | Some k \<Rightarrow> Number (of_int k))"

definition num_cell :: "rat option \<Rightarrow> cell" where
  "num_cell c = (case c of None \<Rightarrow> Empty | Some x \<Rightarrow> Number x)"

definition row_fields :: "row \<Rightarrow> cell list" where
  "row_fields r =
     [text_cell (CustLocation r), int_cell (Cluster r), num_cell (CustomerCount r),
      num_cell (AvgAge r), num_cell (AvgRecency r), num_cell (AvgFrequency r),
      num_cell (AvgAvgMonetary r), num_cell (AvgTotalMonetary r)]"

record csv_file =
  csv_header :: "string list"
  csv_lines :: "cell list list"

definition to_csv :: "dataframe \<Rightarrow> csv_file" where
  "to_csv frame = \<lparr>csv_header = required_cols, csv_lines = map row_fields frame\<rparr>"

section \<open>The render cycle\<close>

text \<open>
  What the libraries leave open in one run: the order of equal city totals and of equal
  segment spends after \<^verbatim>\<open>sort_values\<close>, and the neighbour \<^verbatim>\<open>round(2)\<close> returns at
  an exact half.
\<close>

record lib_choice =
  city_rank :: "string \<Rightarrow> nat"
  segment_rank :: "seg_row \<Rightarrow> nat"
  half_up :: "rat \<Rightarrow> bool"

text \<open>
  One run of the script from line 136 on, for the sidebar state given: the base frame,
  the page view, then the KPI row, the tables of the tabs, the frame handed to
  \<^verbatim>\<open>to_csv\<close> for the download button (line 392) and the file it gives. An exception
  ends the run.
\<close>

record dashboard =
  d_fdf_base :: dataframe
  d_view :: page_view
  d_total_customers :: int
  d_weighted_spend :: np_float
  d_seg_summary :: "seg_row list"
  d_recs :: "(int \<times> bucket) list"
  d_export :: dataframe
  d_csv :: csv_file

definition render ::
  "lib_choice \<Rightarrow> dataframe \<Rightarrow> string list \<Rightarrow> int list \<Rightarrow> nat option \<Rightarrow> int \<Rightarrow> bool \<Rightarrow> int
     \<Rightarrow> py_error + dashboard" where
  "render lib df city_sel cluster_sel topn page_size show_all entered =
     (let base = fdf_base (city_rank lib) df city_sel cluster_sel topn in
      case paginate base page_size show_all entered of
        Inl e \<Rightarrow> Inl e
      | Inr v \<Rightarrow>
          Inr \<lparr>d_fdf_base = base,
               d_view = v,
               d_total_customers = total_customers df,
               d_weighted_spend = weighted_spend df,
               d_seg_summary = seg_summary (half_up lib) (fdf v),
               d_recs = recs (segment_rank lib) (seg_summary (half_up lib) (fdf v)),
               d_export = fdf v,
               d_csv = to_csv (fdf v)\<rparr>)"

section \<open>The Top-N rule in the words of the specification\<close>

text \<open>
  The specification ranks the cities by their total customer count, descending, and
  breaks ties by the order in which the cities first appear in the rows. This second
  definition follows those words: the totals are listed in order of first appearance
  and sorted by a stable descending sort. It is compared below with \<open>keep_cities\<close>
  and \<open>fdf_base\<close>, which follow the script.
\<close>

definition spec_top_cities :: "nat \<Rightarrow> dataframe \<Rightarrow> string list" where
  "spec_top_cities topn rows =
     map fst (take topn
       (sort_key (\<lambda>kv. - snd kv)
          (map (\<lambda>c. (c, sum_skipna (map CustomerCount (group_rows CustLocation rows c))))
             (unique (dropna (map CustLocation rows))))))"

definition spec_applyFilters :: "dataframe \<Rightarrow> string list \<Rightarrow> int list \<Rightarrow> nat \<Rightarrow> dataframe" where
  "spec_applyFilters df cities clusters topn =
     (let base = select_rows df cities clusters
      in filter (\<lambda>r. isin (CustLocation r) (spec_top_cities topn base)) base)"

section \<open>Tables for concrete runs\<close>

text \<open>
  A line of the CSV file with the columns the examples below vary: city, cluster,
  customer count, average frequency and average total spend; the other cells are empty.
\<close>

definition csv_row ::
  "string option \<Rightarrow> int option \<Rightarrow> rat option \<Rightarrow> rat option \<Rightarrow> rat option \<Rightarrow> row" where
  "csv_row city cluster n freq spend =
     \<lparr>CustLocation = city, Cluster = cluster, CustomerCount = n, AvgAge = None,
      AvgRecency = None, AvgFrequency = freq, AvgAvgMonetary = None,
      AvgTotalMonetary = spend\<rparr>"

text \<open>Two rows: the first of city A, the second without a city.\<close>

definition table_missing_city :: dataframe where
  "table_missing_city =
     [csv_row (Some ''A'') (Some 0) (Some 2) (Some 1) (Some 100),
      csv_row None (Some 0) (Some 3) (Some 1) (Some 200)]"

text \<open>Two rows whose customer counts are both 0.\<close>

definition table_no_customers :: dataframe where
  "table_no_customers =
     [csv_row (Some ''A'') (Some 0) (Some 0) (Some 1) (Some 100),
      csv_row (Some ''B'') (Some 0) (Some 0) (Some 1) (Some 200)]"

text \<open>Six cities, one row each, in one cluster.\<close>

definition table_six_cities :: dataframe where
  "table_six_cities =
     map (\<lambda>c. csv_row (Some c) (Some 0) (Some 1) (Some 1) (Some 1))
       [''A'', ''B'', ''C'', ''D'', ''E'', ''F'']"

text \<open>Two rows of cluster 1 with customer counts 10, 20 and total spends 50, 70.\<close>

definition table_cluster_one :: dataframe where
  "table_cluster_one =
     [csv_row (Some ''A'') (Some 1) (Some 10) None (Some 50),
      csv_row (Some ''B'') (Some 1) (Some 20) None (Some 70)]"




text \<open>
  Four cities of cluster 0, one row each, with 5, 5, 7 and 7 customers; the second table
  has the same rows with the first two exchanged.
\<close>

definition table_two_ties :: dataframe where
  "table_two_ties =
     [csv_row (Some ''C00'') (Some 0) (Some 5) (Some 1) (Some 1),
      csv_row (Some ''C01'') (Some 0) (Some 5) (Some 1) (Some 1),
      csv_row (Some ''C02'') (Some 0) (Some 7) (Some 1) (Some 1),
      csv_row (Some ''C03'') (Some 0) (Some 7) (Some 1) (Some 1)]"

definition table_two_ties_swapped :: dataframe where
  "table_two_ties_swapped =
     [csv_row (Some ''C01'') (Some 0) (Some 5) (Some 1) (Some 1),
      csv_row (Some ''C00'') (Some 0) (Some 5) (Some 1) (Some 1),
      csv_row (Some ''C02'') (Some 0) (Some 7) (Some 1) (Some 1),
      csv_row (Some ''C03'') (Some 0) (Some 7) (Some 1) (Some 1)]"

text \<open>
  A sort that leaves these four cities, where their totals are equal, in descending
  order of name, as an ascending sort read backwards does.
\<close>

definition rank_names_descending :: "string \<Rightarrow> nat" where
  "rank_names_descending c =
     (if c = ''C03'' then 0 else if c = ''C02'' then 1 else if c = ''C01'' then 2 else 3)"

text \<open>
  A choice for what the libraries leave open: equal values keep the order of the sorted
  series, and an exact half is rounded down.
\<close>

definition lib_plain :: lib_choice where
  "lib_plain = \<lparr>city_rank = (\<lambda>_. 0), segment_rank = (\<lambda>_. 0), half_up = (\<lambda>_. False)\<rparr>"

text \<open>Three rows of cluster 1 with total spends 1, 1 and 2: their mean is 4/3.\<close>

definition table_thirds :: dataframe where
  "table_thirds =
     [csv_row (Some ''A'') (Some 1) (Some 10) None (Some 1),
      csv_row (Some ''B'') (Some 1) (Some 20) None (Some 1),
      csv_row (Some ''C'') (Some 1) (Some 5) None (Some 2)]"

section \<open>Basic facts about the table operations\<close>

lemma set_dropna: "set (dropna xs) = {x. Some x \<in> set xs}"
  by (induction xs rule: dropna.induct) auto

lemma set_unique: "set (unique xs) = set xs"
  by (simp add: unique_def)

lemma distinct_unique: "distinct (unique xs)"
  by (simp add: unique_def)

lemma isin_iff: "isin c vals \<longleftrightarrow> (\<exists>v. c = Some v \<and> v \<in> set vals)"
  by (cases c) (simp_all add: isin_def)

lemma filter_id: "(\<And>x. x \<in> set xs \<Longrightarrow> P x) \<Longrightarrow> filter P xs = xs"
  by (induction xs) auto

lemma set_group_keys: "set (group_keys key rows) = {k. \<exists>r \<in> set rows. key r = Some k}"
  by (force simp: group_keys_def set_unique set_dropna image_iff)

lemma distinct_group_keys: "distinct (group_keys key rows)"
  by (simp add: group_keys_def distinct_unique)

lemma sorted_group_keys: "sorted (group_keys key rows)"
  by (simp add: group_keys_def)

lemma length_city_totals_all:
  "length (city_totals_all rank rows) = length (group_keys CustLocation rows)"
  by (simp add: city_totals_all_def sort_values_desc_def groupby_sum_def)

lemma fst_city_totals_all:
  "set (map fst (city_totals_all rank rows)) = set (group_keys CustLocation rows)"
  by (simp add: city_totals_all_def sort_values_desc_def groupby_sum_def image_image)

lemma keep_cities_subset: "set (keep_cities rank n rows) \<subseteq> set (group_keys CustLocation rows)"
proof -
  have "set (map fst (take n (city_totals_all rank rows))) \<subseteq> set (map fst (city_totals_all rank rows))"
    by (metis set_take_subset image_mono set_map)
  then show ?thesis by (simp only: keep_cities_def fst_city_totals_all)
qed

lemma keep_cities_all:
  assumes "length (group_keys CustLocation rows) \<le> n"
  shows "set (keep_cities rank n rows) = set (group_keys CustLocation rows)"
  using assms fst_city_totals_all [of rank rows] length_city_totals_all [of rank rows]
  by (simp add: keep_cities_def)

lemma select_rows_idem: "select_rows (select_rows df cs ks) cs ks = select_rows df cs ks"
  by (simp add: select_rows_def)

lemma select_rows_filter:
  "select_rows (filter P (select_rows df cs ks)) cs ks = filter P (select_rows df cs ks)"
  unfolding select_rows_def by (rule filter_id) auto

section \<open>Filter idempotence\<close>

text \<open>
  After the Top-N cut the frame holds at most \<open>n\<close> distinct cities, so a second cut
  keeps every one of them.
\<close>

lemma topn_filter_idem:
  fixes F :: dataframe and n :: nat and rank rank' :: "string \<Rightarrow> nat"
  defines "R \<equiv> filter (\<lambda>r. isin (CustLocation r) (keep_cities rank n F)) F"
  shows "filter (\<lambda>r. isin (CustLocation r) (keep_cities rank' n R)) R = R"
proof -
  have keys_R: "set (group_keys CustLocation R) = set (keep_cities rank n F)"
  proof
    show "set (group_keys CustLocation R) \<subseteq> set (keep_cities rank n F)"
      by (auto simp: set_group_keys R_def isin_iff)
  next
    show "set (keep_cities rank n F) \<subseteq> set (group_keys CustLocation R)"
    proof
      fix c assume c: "c \<in> set (keep_cities rank n F)"
      then have "c \<in> set (group_keys CustLocation F)"
        using keep_cities_subset by blast
      then obtain r where "r \<in> set F" "CustLocation r = Some c"
        by (auto simp: set_group_keys)
      with c have "r \<in> set R" by (simp add: R_def isin_iff)
      with \<open>CustLocation r = Some c\<close> show "c \<in> set (group_keys CustLocation R)"
        by (auto simp: set_group_keys)
    qed
  qed
  have "length (group_keys CustLocation R) = card (set (keep_cities rank n F))"
    using distinct_card [OF distinct_group_keys, of CustLocation R] keys_R by simp
  also have "\<dots> \<le> length (keep_cities rank n F)" by (rule card_length)
  also have "\<dots> \<le> n" by (simp add: keep_cities_def)
  finally have "set (keep_cities rank' n R) = set (group_keys CustLocation R)"
    by (rule keep_cities_all)
  with keys_R have "set (keep_cities rank' n R) = set (keep_cities rank n F)" by simp
  then show ?thesis
    by (intro filter_id) (simp add: R_def isin_iff)
qed

text \<open>
  Claim C6. Applying the base filter (city selection, cluster selection and the optional
  Top-N cut) to its own output, with the same arguments, returns that output unchanged.
\<close>

theorem fdf_base_idempotent:
  "fdf_base rank' (fdf_base rank df city_sel cluster_sel topn) city_sel cluster_sel topn
     = fdf_base rank df city_sel cluster_sel topn"
proof (cases topn)
  case None
  then show ?thesis by (simp add: fdf_base_def select_rows_idem)
next
  case (Some n)
  show ?thesis
  proof (cases "n = 0")
    case True
    with Some show ?thesis by (simp add: fdf_base_def select_rows_idem)
  next
    case False
    define F where "F = select_rows df city_sel cluster_sel"
    define R where "R = filter (\<lambda>r. isin (CustLocation r) (keep_cities rank n F)) F"
    have 1: "fdf_base rank df city_sel cluster_sel topn = R"
      using Some False by (simp add: fdf_base_def F_def R_def Let_def)
    have 2: "select_rows R city_sel cluster_sel = R"
      unfolding R_def F_def by (rule select_rows_filter)
    have "fdf_base rank' R city_sel cluster_sel topn
            = filter (\<lambda>r. isin (CustLocation r) (keep_cities rank' n R)) R"
      using Some False by (simp add: fdf_base_def 2 Let_def)
    also have "\<dots> = R"
      unfolding R_def by (rule topn_filter_idem)
    finally show ?thesis by (simp only: 1)
  qed
qed

section \<open>The render cycle never raises on a selected frame\<close>

lemma select_rows_city: "r \<in> set (select_rows df cs ks) \<Longrightarrow> \<exists>c. CustLocation r = Some c \<and> c \<in> set cs"
  by (auto simp: select_rows_def isin_iff)

lemma fdf_base_subset: "set (fdf_base rank df cs ks tn) \<subseteq> set (select_rows df cs ks)"
  by (auto simp: fdf_base_def Let_def split: option.splits)

lemma fdf_base_city: "r \<in> set (fdf_base rank df cs ks tn) \<Longrightarrow> \<exists>c. CustLocation r = Some c \<and> c \<in> set cs"
  using fdf_base_subset select_rows_city by blast

lemma py_sorted_present:
  assumes "\<And>r. r \<in> set rows \<Longrightarrow> CustLocation r \<noteq> None"
  shows "py_sorted (unique (map CustLocation rows)) = Inr (sort (unique (map CustLocation rows)))"
proof -
  have "None \<notin> set (unique (map CustLocation rows))"
    using assms by (force simp: set_unique)
  then show ?thesis by (simp add: py_sorted_def)
qed

lemma paginate_rows_subset: "paginate rows ps sa pg = Inr v \<Longrightarrow> set (fdf v) \<subseteq> set rows"
  by (auto simp: paginate_def Let_def split: sum.splits if_splits)

lemma paginate_total:
  assumes "\<And>r. r \<in> set rows \<Longrightarrow> CustLocation r \<noteq> None" and "sa \<or> ps \<noteq> 0"
  shows "\<exists>v. paginate rows ps sa pg = Inr v"
  using assms(2) by (auto simp: paginate_def py_sorted_present [OF assms(1)] total_pages_of_def Let_def)

lemma render_total:
  assumes "sa \<or> ps \<noteq> 0"
  shows "\<exists>d. render lib df cs ks tn ps sa pg = Inr d"
proof -
  have "\<And>r. r \<in> set (fdf_base (city_rank lib) df cs ks tn) \<Longrightarrow> CustLocation r \<noteq> None"
    using fdf_base_city by fastforce
  from paginate_total [OF this assms]
  obtain v where "paginate (fdf_base (city_rank lib) df cs ks tn) ps sa pg = Inr v" by blast
  then show ?thesis by (simp add: render_def Let_def)
qed

lemma render_fields:
  assumes "render lib df cs ks tn ps sa pg = Inr d"
  shows "d_fdf_base d = fdf_base (city_rank lib) df cs ks tn"
    and "paginate (fdf_base (city_rank lib) df cs ks tn) ps sa pg = Inr (d_view d)"
    and "d_total_customers d = total_customers df"
    and "d_weighted_spend d = weighted_spend df"
    and "d_seg_summary d = seg_summary (half_up lib) (fdf (d_view d))"
    and "d_recs d = recs (segment_rank lib) (seg_summary (half_up lib) (fdf (d_view d)))"
    and "d_export d = fdf (d_view d)"
    and "d_csv d = to_csv (fdf (d_view d))"
  using assms by (auto simp: render_def Let_def split: sum.splits)

lemma sum_skipna_append: "sum_skipna (xs @ ys) = sum_skipna xs + sum_skipna ys"
  by (induction xs rule: dropna.induct) (simp_all add: sum_skipna_def)

lemma sum_skipna_partition:
  "sum_skipna (map f rows) = sum_skipna (map f (filter P rows)) + sum_skipna (map f (filter (\<lambda>r. \<not> P r) rows))"
proof (induction rows)
  case Nil
  show ?case by (simp add: sum_skipna_def)
next
  case (Cons a rows)
  then show ?case by (cases "f a") (auto simp: sum_skipna_def)
qed

section \<open>Weighted average spend\<close>

lemma sum_skipna_map:
  "sum_skipna (map f rows) = (\<Sum>r\<leftarrow>rows. case f r of None \<Rightarrow> 0 | Some v \<Rightarrow> v)"
proof (induction rows)
  case Nil
  show ?case by (simp add: sum_skipna_def)
next
  case (Cons a rows)
  then show ?case by (cases "f a") (auto simp: sum_skipna_def)
qed

lemma np_divide_zero: "np_divide a 0 \<in> {NaN, PosInf, NegInf}"
  by (simp add: np_divide_def)

lemma zero_total_zero_product:
  assumes den: "sum_skipna (map CustomerCount df) = 0"
    and nonneg: "\<forall>r\<in>set df. \<forall>n. CustomerCount r = Some n \<longrightarrow> 0 \<le> n"
  shows "sum_skipna (map (\<lambda>r. mul_na (AvgTotalMonetary r) (CustomerCount r)) df) = 0"
proof -
  let ?c = "\<lambda>r. case CustomerCount r of None \<Rightarrow> 0 | Some v \<Rightarrow> v"
  have nn: "\<And>x. x \<in> set (map ?c df) \<Longrightarrow> 0 \<le> x"
    using nonneg by (auto split: option.splits)
  have "sum_list (map ?c df) = 0"
    using den by (simp add: sum_skipna_map)
  then have "\<forall>x\<in>set (map ?c df). x = 0"
    using nn sum_list_nonneg_eq_0_iff [of "map ?c df"] by blast
  then have z: "\<And>r. r \<in> set df \<Longrightarrow> ?c r = 0" by simp
  have "\<And>r. r \<in> set df \<Longrightarrow>
      (case mul_na (AvgTotalMonetary r) (CustomerCount r) of None \<Rightarrow> 0 | Some v \<Rightarrow> v) = 0"
    using z by (fastforce simp: mul_na_def split: option.splits)
  then have "(\<Sum>r\<leftarrow>df. case mul_na (AvgTotalMonetary r) (CustomerCount r) of None \<Rightarrow> 0 | Some v \<Rightarrow> v) = 0"
    by (induction df) auto
  then show ?thesis by (simp add: sum_skipna_map)
qed

text \<open>
  Claim C3. The weighted average spend shown in the KPI row is computed from the whole
  loaded table, whatever the city selection, cluster selection, Top-N value, page size,
  show-all flag and page are: it is the sum of spend times customer count over the rows
  where both are present, divided by the sum of the present customer counts. When that
  sum of counts is zero the run does not raise: the value is NaN or an infinity, and
  NaN when no count is negative. For counts 2, 3 and spends 100, 200 it is 160.
\<close>

theorem weighted_spend_global:
  "(sa \<or> ps \<noteq> 0 \<longrightarrow> (\<exists>d. render lib df cs ks tn ps sa pg = Inr d)) \<and>
   (render lib df cs ks tn ps sa pg = Inr d \<longrightarrow>
      (let num = (\<Sum>r\<leftarrow>df. case (AvgTotalMonetary r, CustomerCount r) of
                         (Some m, Some n) \<Rightarrow> m * n | _ \<Rightarrow> 0);
           den = (\<Sum>r\<leftarrow>df. case CustomerCount r of Some n \<Rightarrow> n | None \<Rightarrow> 0)
       in (den \<noteq> 0 \<longrightarrow> d_weighted_spend d = Finite (num / den)) \<and>
          (den = 0 \<longrightarrow> d_weighted_spend d \<in> {NaN, PosInf, NegInf}) \<and>
          (den = 0 \<and> (\<forall>r\<in>set df. \<forall>n. CustomerCount r = Some n \<longrightarrow> 0 \<le> n)
             \<longrightarrow> d_weighted_spend d = NaN)))"
proof (intro conjI impI)
  assume "sa \<or> ps \<noteq> 0"
  then show "\<exists>d. render lib df cs ks tn ps sa pg = Inr d" by (rule render_total)
next
  assume r: "render lib df cs ks tn ps sa pg = Inr d"
  define num where "num = (\<Sum>r\<leftarrow>df. case (AvgTotalMonetary r, CustomerCount r) of
                         (Some m, Some n) \<Rightarrow> m * n | _ \<Rightarrow> 0)"
  define den where "den = (\<Sum>r\<leftarrow>df. case CustomerCount r of Some n \<Rightarrow> n | None \<Rightarrow> 0)"
  have den: "sum_skipna (map CustomerCount df) = den"
    unfolding den_def sum_skipna_map
    by (rule arg_cong [where f = sum_list]) (auto split: option.splits)
  have num: "sum_skipna (map (\<lambda>r. mul_na (AvgTotalMonetary r) (CustomerCount r)) df) = num"
    unfolding num_def sum_skipna_map
    by (rule arg_cong [where f = sum_list]) (auto simp: mul_na_def split: option.splits)
  have w: "d_weighted_spend d = np_divide num den"
    using render_fields(4) [OF r] by (simp add: weighted_spend_def num den)
  have 1: "den \<noteq> 0 \<longrightarrow> d_weighted_spend d = Finite (num / den)"
    by (simp add: w np_divide_def)
  have 2: "den = 0 \<longrightarrow> d_weighted_spend d \<in> {NaN, PosInf, NegInf}"
    using np_divide_zero [of num] by (auto simp: w)
  have 3: "den = 0 \<and> (\<forall>r\<in>set df. \<forall>n. CustomerCount r = Some n \<longrightarrow> 0 \<le> n)
             \<longrightarrow> d_weighted_spend d = NaN"
  proof
    assume a: "den = 0 \<and> (\<forall>r\<in>set df. \<forall>n. CustomerCount r = Some n \<longrightarrow> 0 \<le> n)"
    then have "num = 0"
      using zero_total_zero_product [of df] den num by simp
    with a show "d_weighted_spend d = NaN" by (simp add: w np_divide_def)
  qed
  from 1 2 3 show "let num = (\<Sum>r\<leftarrow>df. case (AvgTotalMonetary r, CustomerCount r) of
                         (Some m, Some n) \<Rightarrow> m * n | _ \<Rightarrow> 0);
           den = (\<Sum>r\<leftarrow>df. case CustomerCount r of Some n \<Rightarrow> n | None \<Rightarrow> 0)
       in (den \<noteq> 0 \<longrightarrow> d_weighted_spend d = Finite (num / den)) \<and>
          (den = 0 \<longrightarrow> d_weighted_spend d \<in> {NaN, PosInf, NegInf}) \<and>
          (den = 0 \<and> (\<forall>r\<in>set df. \<forall>n. CustomerCount r = Some n \<longrightarrow> 0 \<le> n)
             \<longrightarrow> d_weighted_spend d = NaN)"
    unfolding Let_def num_def den_def by blast
qed


theorem weighted_spend_global_witness:
  "(\<exists>d. render lib_plain table_missing_city [''A''] [0] None 10 False 1 = Inr d
        \<and> d_weighted_spend d = Finite 160) \<and>
   (\<exists>d. render lib_plain table_no_customers [''A''] [0] None 10 True 1 = Inr d
        \<and> d_weighted_spend d = NaN)"
proof
  obtain d where d: "render lib_plain table_missing_city [''A''] [0] None 10 False 1 = Inr d"
    using weighted_spend_global [of False 10 lib_plain table_missing_city "[''A'']" "[0]" None 1]
    by auto
  have "d_weighted_spend d = Finite 160"
    using weighted_spend_global [of False 10 lib_plain table_missing_city "[''A'']" "[0]" None 1 d] d
    by (simp add: table_missing_city_def csv_row_def)
  with d show "\<exists>d. render lib_plain table_missing_city [''A''] [0] None 10 False 1 = Inr d
        \<and> d_weighted_spend d = Finite 160" by blast
next
  obtain d where d: "render lib_plain table_no_customers [''A''] [0] None 10 True 1 = Inr d"
    using weighted_spend_global [of True 10 lib_plain table_no_customers "[''A'']" "[0]" None 1]
    by auto
  have "d_weighted_spend d = NaN"
    using weighted_spend_global [of True 10 lib_plain table_no_customers "[''A'']" "[0]" None 1 d] d
    by (simp add: table_no_customers_def csv_row_def)
  with d show "\<exists>d. render lib_plain table_no_customers [''A''] [0] None 10 True 1 = Inr d
        \<and> d_weighted_spend d = NaN" by blast
qed

section \<open>Rows without a city\<close>

lemma set_all_cities: "set (all_cities df) = {c. \<exists>r\<in>set df. CustLocation r = Some c}"
  by (force simp: all_cities_def set_unique set_dropna image_iff)

lemma paginate_current_cities:
  assumes "paginate rows ps sa pg = Inr v"
  shows "set (current_cities v) \<subseteq> CustLocation ` set rows"
proof -
  have s: "set (sort (unique (map CustLocation rows))) = CustLocation ` set rows"
    by (simp add: set_unique)
  have sl: "\<And>xs a b. set (py_slice xs a b) \<subseteq> set (xs :: string option list)"
    by (auto simp: py_slice_def Let_def dest: in_set_takeD in_set_dropD)
  from assms show ?thesis
    using s sl by (fastforce simp: paginate_def Let_def py_sorted_def split: sum.splits if_splits)
qed

text \<open>
  Claim C10. The city options of the sidebar are exactly the present city values. A row
  whose city is missing is in no base frame, page view or exported frame, and the
  tables of the tabs are computed from rows with a city only, whatever is selected;
  the KPI row still counts it: the total customers are the counts of the rows with a
  city plus the counts of the rows without one, and the weighted spend is that of the
  whole table.
\<close>

theorem missing_city_rows_hidden:
  "set (all_cities df) = {c. \<exists>r\<in>set df. CustLocation r = Some c} \<and>
   (\<forall>r\<in>set (fdf_base rank df city_sel cluster_sel topn). CustLocation r \<noteq> None) \<and>
   (render lib df city_sel cluster_sel topn page_size show_all page = Inr d \<longrightarrow>
      (\<forall>r\<in>set (fdf (d_view d)). CustLocation r \<noteq> None) \<and>
      (\<forall>r\<in>set (d_export d). CustLocation r \<noteq> None) \<and>
      None \<notin> set (current_cities (d_view d)) \<and>
      d_seg_summary d
        = seg_summary (half_up lib) (filter (\<lambda>r. CustLocation r \<noteq> None) (fdf (d_view d))) \<and>
      d_total_customers d =
        py_int (sum_skipna (map CustomerCount (filter (\<lambda>r. CustLocation r \<noteq> None) df))
              + sum_skipna (map CustomerCount (filter (\<lambda>r. CustLocation r = None) df))) \<and>
      d_weighted_spend d = weighted_spend df)"
proof (intro conjI impI)
  show "set (all_cities df) = {c. \<exists>r\<in>set df. CustLocation r = Some c}"
    by (rule set_all_cities)
next
  show base: "\<forall>r\<in>set (fdf_base rank df city_sel cluster_sel topn). CustLocation r \<noteq> None"
    using fdf_base_city by fastforce
  assume r: "render lib df city_sel cluster_sel topn page_size show_all page = Inr d"
  note f = render_fields [OF r]
  have sub: "set (fdf (d_view d)) \<subseteq> set (fdf_base (city_rank lib) df city_sel cluster_sel topn)"
    using f(2) by (rule paginate_rows_subset)
  have base': "\<forall>r\<in>set (fdf_base (city_rank lib) df city_sel cluster_sel topn). CustLocation r \<noteq> None"
    using fdf_base_city by fastforce
  with sub show v: "\<forall>r\<in>set (fdf (d_view d)). CustLocation r \<noteq> None" by blast
  then show "\<forall>r\<in>set (d_export d). CustLocation r \<noteq> None" by (simp add: f(7))
  show "None \<notin> set (current_cities (d_view d))"
    using paginate_current_cities [OF f(2)] base' by force
  have "filter (\<lambda>r. CustLocation r \<noteq> None) (fdf (d_view d)) = fdf (d_view d)"
    using v by (intro filter_id) blast
  then show "d_seg_summary d
        = seg_summary (half_up lib) (filter (\<lambda>r. CustLocation r \<noteq> None) (fdf (d_view d)))"
    by (simp add: f(5))
  show "d_total_customers d =
        py_int (sum_skipna (map CustomerCount (filter (\<lambda>r. CustLocation r \<noteq> None) df))
              + sum_skipna (map CustomerCount (filter (\<lambda>r. CustLocation r = None) df)))"
    using sum_skipna_partition [of CustomerCount df "\<lambda>r. CustLocation r \<noteq> None"]
    by (simp add: f(3) total_customers_def)
  show "d_weighted_spend d = weighted_spend df" by (rule f(4))
qed

theorem missing_city_rows_hidden_witness:
  "\<exists>d. render lib_plain table_missing_city (all_cities table_missing_city)
          (all_clusters table_missing_city) None 10 False 1 = Inr d \<and>
       map CustLocation (d_export d) = [Some ''A''] \<and>
       (\<forall>r\<in>set (d_export d). CustLocation r \<noteq> None) \<and>
       d_total_customers d = 5 \<and>
       d_weighted_spend d = Finite 160"
proof -
  obtain d where d: "render lib_plain table_missing_city (all_cities table_missing_city)
          (all_clusters table_missing_city) None 10 False 1 = Inr d"
    using render_total [of False 10] by fastforce
  have "map_sum id (\<lambda>d. (map CustLocation (d_export d), d_weighted_spend d))
          (render lib_plain table_missing_city (all_cities table_missing_city)
             (all_clusters table_missing_city) None 10 False 1)
        = Inr ([Some ''A''], Finite 160)"
    by code_simp
  with d have e: "map CustLocation (d_export d) = [Some ''A''] \<and> d_weighted_spend d = Finite 160"
    by simp
  have "(\<forall>r\<in>set (d_export d). CustLocation r \<noteq> None) \<and>
      d_total_customers d =
        py_int (sum_skipna (map CustomerCount (filter (\<lambda>r. CustLocation r \<noteq> None) table_missing_city))
              + sum_skipna (map CustomerCount (filter (\<lambda>r. CustLocation r = None) table_missing_city)))"
    using missing_city_rows_hidden [where df = table_missing_city
          and city_sel = "all_cities table_missing_city"
          and cluster_sel = "all_clusters table_missing_city" and topn = None
          and page_size = 10 and show_all = False and page = 1 and d = d
          and lib = lib_plain] d
    by blast
  moreover have "py_int (sum_skipna (map CustomerCount (filter (\<lambda>r. CustLocation r \<noteq> None) table_missing_city))
              + sum_skipna (map CustomerCount (filter (\<lambda>r. CustLocation r = None) table_missing_city))) = 5"
    by code_simp
  ultimately show ?thesis using d e by auto
qed



section \<open>Segment summary\<close>

lemma group_keys_sorted_list:
  "group_keys key rows = sorted_list_of_set {k. \<exists>r\<in>set rows. key r = Some k}"
proof -
  have fin: "finite {k. \<exists>r\<in>set rows. key r = Some k}"
    using set_group_keys [of key rows, symmetric] by (metis List.finite_set)
  show ?thesis
    by (rule sorted_distinct_set_unique)
       (simp_all add: sorted_group_keys distinct_group_keys set_group_keys fin del: set_sorted_list_of_set,
        simp add: fin)
qed

lemma rint_close: "\<bar>of_int (rint up x) - x\<bar> \<le> 1 / 2"
proof -
  have "of_int \<lfloor>x\<rfloor> \<le> x" "x < of_int \<lfloor>x\<rfloor> + 1" by linarith+
  then show ?thesis
    unfolding rint_def Let_def abs_if by (simp split: if_splits; linarith)
qed

lemma round2_close: "\<bar>round2 up x - x\<bar> \<le> 1 / 200"
proof -
  have "\<bar>round2 up x - x\<bar> = \<bar>of_int (rint up (x * 100)) - x * 100\<bar> / 100"
    by (simp add: round2_def abs_if field_simps)
  also have "\<dots> \<le> (1 / 2) / 100"
    using rint_close [of up "x * 100"] by (simp add: divide_right_mono)
  finally show ?thesis by simp
qed

lemma round2_hundredth: "\<exists>k::int. round2 up x = of_int k / 100"
  by (auto simp: round2_def)

lemma round2_Ints: "x \<in> \<int> \<Longrightarrow> round2 up x = x"
proof -
  assume "x \<in> \<int>"
  then obtain k where k: "x = of_int k" by (auto elim: Ints_cases)
  have "x * 100 = of_int (k * 100)" by (simp add: k)
  then have "rint up (x * 100) = k * 100"
    by (simp only: rint_def Let_def floor_of_int) simp
  then show ?thesis by (simp add: round2_def k)
qed

text \<open>
  Claim C8. The segment summary has one row per present cluster value, in ascending
  order. In the row of a cluster, the customer count is the sum of the present counts of
  the rows of that cluster (rounded like the other cells, which leaves a whole sum as it
  is), and each other metric is the plain mean of the present values of the rows of that
  cluster (their sum over their number, with no weighting by customer count) rounded to
  two decimals: a whole number of hundredths at most half a hundredth away from the
  mean; it is missing when no value is present. This holds whichever neighbour is taken
  at an exact half. Two rows of cluster 1 with counts 10, 20 and total spends 50, 70
  give the count 30 and the spend 60; spends 1, 1, 2 give 1.33.
\<close>

theorem seg_summary_spec:
  "map seg_Cluster (seg_summary up rows)
     = sorted_list_of_set {k. \<exists>r\<in>set rows. Cluster r = Some k} \<and>
   (\<forall>s\<in>set (seg_summary up rows).
      let g = filter (\<lambda>r. Cluster r = Some (seg_Cluster s)) rows;
          rounded = (\<lambda>x v. (\<exists>k::int. v = of_int k / 100) \<and> \<bar>v - x\<bar> \<le> 1 / 200);
          mean_of = (\<lambda>vals c. if vals = [] then c = None
                       else \<exists>v. c = Some v \<and> rounded (sum_list vals / of_nat (length vals)) v)
      in g \<noteq> [] \<and>
         rounded (sum_list (dropna (map CustomerCount g))) (seg_CustomerCount s) \<and>
         (sum_list (dropna (map CustomerCount g)) \<in> \<int> \<longrightarrow>
            seg_CustomerCount s = sum_list (dropna (map CustomerCount g))) \<and>
         mean_of (dropna (map AvgAge g)) (seg_AvgAge s) \<and>
         mean_of (dropna (map AvgFrequency g)) (seg_AvgFrequency s) \<and>
         mean_of (dropna (map AvgTotalMonetary g)) (seg_AvgTotalMonetary s) \<and>
         mean_of (dropna (map AvgRecency g)) (seg_AvgRecency s))"
proof
  show "map seg_Cluster (seg_summary up rows)
     = sorted_list_of_set {k. \<exists>r\<in>set rows. Cluster r = Some k}"
    by (simp add: seg_summary_def Let_def comp_def group_keys_sorted_list [symmetric])
next
  let ?rounded = "\<lambda>x v. (\<exists>k::int. v = of_int k / 100) \<and> \<bar>v - x\<bar> \<le> (1 / 200 :: rat)"
  let ?mean_of = "\<lambda>vals c. if vals = [] then c = None
                       else \<exists>v. c = Some v \<and> ?rounded (sum_list vals / of_nat (length vals)) v"
  have rnd: "\<And>x. ?rounded x (round2 up x)"
    using round2_hundredth round2_close by blast
  have mean: "\<And>xs. ?mean_of (dropna xs) (map_option (round2 up) (mean_skipna xs))"
    using rnd by (simp add: mean_skipna_def Let_def)
  show "\<forall>s\<in>set (seg_summary up rows).
      let g = filter (\<lambda>r. Cluster r = Some (seg_Cluster s)) rows;
          rounded = (\<lambda>x v. (\<exists>k::int. v = of_int k / 100) \<and> \<bar>v - x\<bar> \<le> 1 / 200);
          mean_of = (\<lambda>vals c. if vals = [] then c = None
                       else \<exists>v. c = Some v \<and> rounded (sum_list vals / of_nat (length vals)) v)
      in g \<noteq> [] \<and>
         rounded (sum_list (dropna (map CustomerCount g))) (seg_CustomerCount s) \<and>
         (sum_list (dropna (map CustomerCount g)) \<in> \<int> \<longrightarrow>
            seg_CustomerCount s = sum_list (dropna (map CustomerCount g))) \<and>
         mean_of (dropna (map AvgAge g)) (seg_AvgAge s) \<and>
         mean_of (dropna (map AvgFrequency g)) (seg_AvgFrequency s) \<and>
         mean_of (dropna (map AvgTotalMonetary g)) (seg_AvgTotalMonetary s) \<and>
         mean_of (dropna (map AvgRecency g)) (seg_AvgRecency s)"
  proof
    fix s assume "s \<in> set (seg_summary up rows)"
    then obtain k where k: "k \<in> set (group_keys Cluster rows)"
      and s: "s = \<lparr>seg_Cluster = k,
         seg_CustomerCount = round2 up (sum_skipna (map CustomerCount (group_rows Cluster rows k))),
         seg_AvgAge = map_option (round2 up) (mean_skipna (map AvgAge (group_rows Cluster rows k))),
         seg_AvgFrequency = map_option (round2 up) (mean_skipna (map AvgFrequency (group_rows Cluster rows k))),
         seg_AvgTotalMonetary = map_option (round2 up) (mean_skipna (map AvgTotalMonetary (group_rows Cluster rows k))),
         seg_AvgRecency = map_option (round2 up) (mean_skipna (map AvgRecency (group_rows Cluster rows k)))\<rparr>"
      by (auto simp: seg_summary_def Let_def)
    define g where "g = filter (\<lambda>r. Cluster r = Some k) rows"
    from k have ne: "g \<noteq> []"
      by (auto simp: g_def set_group_keys filter_empty_conv)
    have gr: "group_rows Cluster rows k = g" by (simp add: group_rows_def g_def)
    have 1: "?rounded (sum_list (dropna (map CustomerCount g))) (seg_CustomerCount s)"
      unfolding s gr by (simp only: seg_row.select_convs sum_skipna_def rnd)
    have 2: "sum_list (dropna (map CustomerCount g)) \<in> \<int> \<longrightarrow>
            seg_CustomerCount s = sum_list (dropna (map CustomerCount g))"
      by (simp add: s gr sum_skipna_def round2_Ints)
    have 3: "?mean_of (dropna (map AvgAge g)) (seg_AvgAge s)"
      unfolding s gr seg_row.select_convs by (rule mean)
    have 4: "?mean_of (dropna (map AvgFrequency g)) (seg_AvgFrequency s)"
      unfolding s gr seg_row.select_convs by (rule mean)
    have 5: "?mean_of (dropna (map AvgTotalMonetary g)) (seg_AvgTotalMonetary s)"
      unfolding s gr seg_row.select_convs by (rule mean)
    have 6: "?mean_of (dropna (map AvgRecency g)) (seg_AvgRecency s)"
      unfolding s gr seg_row.select_convs by (rule mean)
    have sk: "seg_Cluster s = k" by (simp add: s)
    show "let g = filter (\<lambda>r. Cluster r = Some (seg_Cluster s)) rows;
          rounded = (\<lambda>x v. (\<exists>k::int. v = of_int k / 100) \<and> \<bar>v - x\<bar> \<le> 1 / 200);
          mean_of = (\<lambda>vals c. if vals = [] then c = None
                       else \<exists>v. c = Some v \<and> rounded (sum_list vals / of_nat (length vals)) v)
      in g \<noteq> [] \<and>
         rounded (sum_list (dropna (map CustomerCount g))) (seg_CustomerCount s) \<and>
         (sum_list (dropna (map CustomerCount g)) \<in> \<int> \<longrightarrow>
            seg_CustomerCount s = sum_list (dropna (map CustomerCount g))) \<and>
         mean_of (dropna (map AvgAge g)) (seg_AvgAge s) \<and>
         mean_of (dropna (map AvgFrequency g)) (seg_AvgFrequency s) \<and>
         mean_of (dropna (map AvgTotalMonetary g)) (seg_AvgTotalMonetary s) \<and>
         mean_of (dropna (map AvgRecency g)) (seg_AvgRecency s)"
      unfolding Let_def sk g_def [symmetric]
      using ne 1 2 3 4 5 6 by blast
  qed
qed

lemma hundredth_unique:
  fixes v w x :: rat
  assumes "\<exists>k::int. v = of_int k / 100" "\<bar>v - x\<bar> \<le> 1 / 200"
    and "\<exists>j::int. w = of_int j / 100" "\<bar>w - x\<bar> < 1 / 200"
  shows "v = w"
proof -
  from assms(1) obtain k :: int where k: "v = of_int k / 100" by blast
  from assms(3) obtain j :: int where j: "w = of_int j / 100" by blast
  have "\<bar>v - w\<bar> < 1 / 100" using assms(2,4) by linarith
  then have "\<bar>(of_int (k - j) :: rat)\<bar> < 1" by (simp add: k j abs_if split: if_splits)
  then have "\<bar>k - j\<bar> < 1" by (metis of_int_abs of_int_less_1_iff)
  then have "k = j" by simp
  then show ?thesis by (simp add: k j)
qed

theorem seg_summary_spec_witness:
  "(\<forall>up. map seg_CustomerCount (seg_summary up table_cluster_one) = [30]) \<and>
   (\<forall>up. map seg_AvgTotalMonetary (seg_summary up table_cluster_one) = [Some 60]) \<and>
   (\<forall>up. map seg_AvgTotalMonetary (seg_summary up table_thirds) = [Some (133 / 100)]) \<and>
   seg_summary (\<lambda>_. False) table_cluster_one
     = [\<lparr>seg_Cluster = 1, seg_CustomerCount = 30, seg_AvgAge = None,
         seg_AvgFrequency = None, seg_AvgTotalMonetary = Some 60, seg_AvgRecency = None\<rparr>]"
proof -
  have one: "\<exists>s. seg_summary up T = [s] \<and> seg_Cluster s = 1 \<and> s \<in> set (seg_summary up T)"
    if "group_keys Cluster T = [1]" for up T
  proof -
    have "map seg_Cluster (seg_summary up T) = [1]"
      using seg_summary_spec [of up T] that by (simp add: group_keys_sorted_list)
    then show ?thesis by (cases "seg_summary up T") auto
  qed
  have k1: "group_keys Cluster table_cluster_one = [1]"
    and k2: "group_keys Cluster table_thirds = [1]"
    by code_simp+
  have a: "map seg_CustomerCount (seg_summary up table_cluster_one) = [30] \<and>
           map seg_AvgTotalMonetary (seg_summary up table_cluster_one) = [Some 60]" for up
  proof -
    from one [OF k1, of up] obtain s where s: "seg_summary up table_cluster_one = [s]"
      "seg_Cluster s = 1" "s \<in> set (seg_summary up table_cluster_one)" by blast
    have g: "filter (\<lambda>r. Cluster r = Some (seg_Cluster s)) table_cluster_one
               = table_cluster_one"
      by (simp add: s(2) table_cluster_one_def csv_row_def)
    have n: "dropna (map CustomerCount table_cluster_one) = [10, 20]"
      and m: "dropna (map AvgTotalMonetary table_cluster_one) = [50, 70]"
      by (simp_all add: table_cluster_one_def csv_row_def)
    note sp = seg_summary_spec [of up table_cluster_one, THEN conjunct2, THEN bspec, OF s(3),
        unfolded Let_def g n m]
    have "sum_list [10, 20 :: rat] \<in> \<int>" by simp
    with sp have c: "seg_CustomerCount s = 30" by simp
    from sp obtain v where v: "seg_AvgTotalMonetary s = Some v"
      "\<exists>k::int. v = of_int k / 100" "\<bar>v - sum_list [50, 70] / of_nat (length [50, 70 :: rat])\<bar> \<le> 1 / 200"
      by auto
    have "v = 60"
      using v(2) _ _ _
    proof (rule hundredth_unique)
      show "\<bar>v - 60\<bar> \<le> 1 / 200" using v(3) by simp
      show "\<exists>j::int. (60::rat) = of_int j / 100" by (intro exI [of _ 6000]) simp
      show "\<bar>(60::rat) - 60\<bar> < 1 / 200" by simp
    qed
    with c v(1) show ?thesis by (simp add: s(1))
  qed
  have b: "map seg_AvgTotalMonetary (seg_summary up table_thirds) = [Some (133 / 100)]" for up
  proof -
    from one [OF k2, of up] obtain s where s: "seg_summary up table_thirds = [s]"
      "seg_Cluster s = 1" "s \<in> set (seg_summary up table_thirds)" by blast
    have g: "filter (\<lambda>r. Cluster r = Some (seg_Cluster s)) table_thirds = table_thirds"
      by (simp add: s(2) table_thirds_def csv_row_def)
    have m: "dropna (map AvgTotalMonetary table_thirds) = [1, 1, 2]"
      by (simp add: table_thirds_def csv_row_def)
    note sp = seg_summary_spec [of up table_thirds, THEN conjunct2, THEN bspec, OF s(3),
        unfolded Let_def g m]
    from sp obtain v where v: "seg_AvgTotalMonetary s = Some v"
      "\<exists>k::int. v = of_int k / 100"
      "\<bar>v - sum_list [1, 1, 2] / of_nat (length [1, 1, 2 :: rat])\<bar> \<le> 1 / 200"
      by auto
    have "v = 133 / 100"
      using v(2) _ _ _
    proof (rule hundredth_unique)
      show "\<bar>v - 4 / 3\<bar> \<le> 1 / 200" using v(3) by simp
      show "\<exists>j::int. (133 / 100 :: rat) = of_int j / 100" by (intro exI [of _ 133]) simp
      show "\<bar>(133 / 100 :: rat) - 4 / 3\<bar> < 1 / 200" by simp
    qed
    with v(1) show ?thesis by (simp add: s(1))
  qed
  have e: "seg_summary (\<lambda>_. False) table_cluster_one
     = [\<lparr>seg_Cluster = 1, seg_CustomerCount = 30, seg_AvgAge = None,
         seg_AvgFrequency = None, seg_AvgTotalMonetary = Some 60, seg_AvgRecency = None\<rparr>]"
    by code_simp
  from a b e show ?thesis by blast
qed

section \<open>Strategy suggestions\<close>




lemma sort_eq_Nil: "sort xs = [] \<longleftrightarrow> xs = []"
  by (metis length_sort length_0_conv)

lemma median_None: "median xs = None \<longleftrightarrow> dropna xs = []"
proof (cases "dropna xs = []")
  case True
  then show ?thesis by (simp add: median_def)
next
  case False
  then show ?thesis by (simp add: median_def Let_def sort_eq_Nil del: not_None_eq)
qed








section \<open>Normalised city profile\<close>



lemma col_max_None: "col_max col = None \<longleftrightarrow> dropna col = []"
  by (cases "dropna col") (auto simp: col_max_def)

lemma col_min_None: "col_min col = None \<longleftrightarrow> dropna col = []"
  by (cases "dropna col") (auto simp: col_min_def)











section \<open>City pagination\<close>

lemma py_slice_nonneg:
  assumes "0 \<le> s" "s \<le> e"
  shows "py_slice xs s e = take (nat (e - s)) (drop (nat s) xs)"
proof (cases "s < int (length xs)")
  case True
  show ?thesis
  proof (cases "e \<le> int (length xs)")
    case True
    with assms \<open>s < int (length xs)\<close> show ?thesis
      by (auto simp: py_slice_def Let_def min_def)
  next
    case False
    with assms \<open>s < int (length xs)\<close> show ?thesis
      by (auto simp: py_slice_def Let_def min_def)
  qed
next
  case False
  with assms show ?thesis
    by (auto simp: py_slice_def Let_def min_def)
qed

lemma set_take_drop:
  "x \<in> set (take k (drop s xs)) \<longleftrightarrow> (\<exists>i. s \<le> i \<and> i < s + k \<and> i < length xs \<and> xs ! i = x)"
proof
  assume "x \<in> set (take k (drop s xs))"
  then obtain j where j: "j < length (take k (drop s xs))" "take k (drop s xs) ! j = x"
    by (auto simp: in_set_conv_nth)
  then have "j < k" "s + j < length xs" by auto
  with j have "xs ! (s + j) = x" by simp
  with \<open>j < k\<close> \<open>s + j < length xs\<close> show "\<exists>i. s \<le> i \<and> i < s + k \<and> i < length xs \<and> xs ! i = x"
    by (intro exI [of _ "s + j"]) simp
next
  assume "\<exists>i. s \<le> i \<and> i < s + k \<and> i < length xs \<and> xs ! i = x"
  then obtain i where i: "s \<le> i" "i < s + k" "i < length xs" "xs ! i = x" by blast
  then have "i - s < length (take k (drop s xs))" by auto
  moreover have "take k (drop s xs) ! (i - s) = x" using i by simp
  ultimately show "x \<in> set (take k (drop s xs))"
    by (metis nth_mem)
qed

lemma concat_slices:
  "concat (map (\<lambda>k. take P (drop (k * P) xs)) [0..<T]) = take (T * P) xs"
proof (induction T)
  case 0
  show ?case by simp
next
  case (Suc T)
  have "Suc T * P = T * P + P" by simp
  then have "take (Suc T * P) xs = take (T * P) xs @ take P (drop (T * P) xs)"
    by (simp only: take_add)
  with Suc show ?case by simp
qed


lemma upto_as_upt: "[1..int n] = map (\<lambda>k. int k + 1) [0..<n]"
proof (induction n)
  case 0
  show ?case by simp
next
  case (Suc n)
  have "[1..int (Suc n)] = [1..int n] @ [int n + 1]"
    using upto_rec2 [of 1 "int (Suc n)"] by simp
  with Suc show ?case by simp
qed

lemma sorted_map_Some: "sorted (map Some xs) \<longleftrightarrow> sorted xs"
  by (simp add: sorted_map)

lemma cities_sorted_names:
  assumes "\<forall>r\<in>set rows. CustLocation r \<noteq> None"
  shows "sort (unique (map CustLocation rows)) = map Some (group_keys CustLocation rows)"
proof (rule sorted_distinct_set_unique)
  show "sorted (sort (unique (map CustLocation rows)))" by simp
  show "distinct (sort (unique (map CustLocation rows)))" by (simp add: distinct_unique)
  show "sorted (map Some (group_keys CustLocation rows))"
    by (simp add: sorted_map_Some sorted_group_keys)
  show "distinct (map Some (group_keys CustLocation rows))"
    by (simp add: distinct_map distinct_group_keys)
  show "set (sort (unique (map CustLocation rows))) = set (map Some (group_keys CustLocation rows))"
    using assms by (force simp: set_unique set_group_keys image_iff)
qed

lemma paginate_show_all:
  assumes "\<forall>r\<in>set rows. CustLocation r \<noteq> None"
  shows "paginate rows ps True pg =
     Inr \<lparr>fdf = rows, current_cities = map Some (group_keys CustLocation rows), total_pages = None\<rparr>"
proof -
  have "py_sorted (unique (map CustLocation rows)) = Inr (map Some (group_keys CustLocation rows))"
    using py_sorted_present [of rows] assms cities_sorted_names [OF assms] by simp
  then show ?thesis by (simp add: paginate_def)
qed

lemma paginate_page:
  fixes rows :: dataframe and ps entered :: int
  assumes "\<forall>r\<in>set rows. CustLocation r \<noteq> None" and "0 < ps"
  defines "cs \<equiv> map Some (group_keys CustLocation rows)"
  defines "pg \<equiv> number_input 1 (max 1 \<lceil>(of_nat (length cs) :: rat) / of_int ps\<rceil>) entered"
  defines "cur \<equiv> take (nat ps) (drop (nat (pg - 1) * nat ps) cs)"
  shows "paginate rows ps False entered =
     Inr \<lparr>fdf = filter (\<lambda>r. CustLocation r \<in> set cur) rows,
          current_cities = cur,
          total_pages = Some (max 1 \<lceil>(of_nat (length cs) :: rat) / of_int ps\<rceil>)\<rparr>"
proof -
  have s: "py_sorted (unique (map CustLocation rows)) = Inr cs"
    using py_sorted_present [of rows] assms(1) cities_sorted_names [OF assms(1)]
    by (simp add: cs_def)
  have pg1: "1 \<le> pg" by (simp add: pg_def number_input_def)
  have "0 \<le> (pg - 1) * ps" using assms(2) pg1 by simp
  then have "py_slice cs ((pg - 1) * ps) ((pg - 1) * ps + ps)
               = take (nat ps) (drop (nat ((pg - 1) * ps)) cs)"
    using assms(2) by (simp add: py_slice_nonneg)
  also have "nat ((pg - 1) * ps) = nat (pg - 1) * nat ps"
    using pg1 by (simp add: nat_mult_distrib)
  finally have sl: "py_slice cs ((pg - 1) * ps) ((pg - 1) * ps + ps) = cur"
    by (simp add: cur_def)
  show ?thesis
    using assms(2) by (simp add: paginate_def s total_pages_of_def Let_def sl [unfolded pg_def])
qed

lemma paginate_page_exact:
  fixes rows :: dataframe and ps pg :: int
  assumes "\<forall>r\<in>set rows. CustLocation r \<noteq> None" and "0 < ps"
    and "1 \<le> pg"
    and "pg \<le> max 1 \<lceil>(of_nat (length (group_keys CustLocation rows)) :: rat) / of_int ps\<rceil>"
  defines "cs \<equiv> map Some (group_keys CustLocation rows)"
  defines "cur \<equiv> take (nat ps) (drop (nat (pg - 1) * nat ps) cs)"
  shows "paginate rows ps False pg =
     Inr \<lparr>fdf = filter (\<lambda>r. CustLocation r \<in> set cur) rows,
          current_cities = cur,
          total_pages = Some (max 1 \<lceil>(of_nat (length cs) :: rat) / of_int ps\<rceil>)\<rparr>"
proof -
  have "number_input 1 (max 1 \<lceil>(of_nat (length cs) :: rat) / of_int ps\<rceil>) pg = pg"
    using assms(3,4) by (simp add: number_input_def cs_def)
  with paginate_page [OF assms(1,2), of pg] show ?thesis
    by (simp add: cs_def cur_def)
qed





section \<open>Pagination coverage\<close>

lemma filter_filter_disjoint:
  assumes "\<And>x. x \<in> set xs \<Longrightarrow> P x \<Longrightarrow> \<not> Q x"
  shows "filter P (filter (\<lambda>x. \<not> Q x) xs) = filter P xs"
  using assms by (induction xs) auto

lemma mset_concat_filters:
  assumes "distinct (concat (map S ks))"
    and "\<forall>r\<in>set rows. f r \<in> set (concat (map S ks))"
  shows "mset (concat (map (\<lambda>k. filter (\<lambda>r. f r \<in> set (S k)) rows) ks)) = mset rows"
  using assms
proof (induction ks arbitrary: rows)
  case Nil
  then have "rows = []" by (cases rows) auto
  then show ?case by simp
next
  case (Cons k ks)
  let ?rest = "filter (\<lambda>r. \<not> f r \<in> set (S k)) rows"
  from Cons.prems(1) have d: "distinct (concat (map S ks))"
    and disj: "set (S k) \<inter> set (concat (map S ks)) = {}"
    by auto
  have cover: "\<forall>r\<in>set ?rest. f r \<in> set (concat (map S ks))"
    using Cons.prems(2) by auto
  have same: "\<And>k'. k' \<in> set ks \<Longrightarrow>
      filter (\<lambda>r. f r \<in> set (S k')) ?rest = filter (\<lambda>r. f r \<in> set (S k')) rows"
  proof (rule filter_filter_disjoint)
    fix k' x assume "k' \<in> set ks" "f x \<in> set (S k')"
    then have "f x \<in> set (concat (map S ks))" by auto
    with disj show "\<not> f x \<in> set (S k)" by blast
  qed
  have "mset (concat (map (\<lambda>k. filter (\<lambda>r. f r \<in> set (S k)) rows) ks))
      = mset (concat (map (\<lambda>k. filter (\<lambda>r. f r \<in> set (S k)) ?rest) ks))"
    using same by (metis (mono_tags, lifting) map_eq_conv)
  also have "\<dots> = mset ?rest" using Cons.IH [OF d cover] .
  finally show ?case by simp
qed

lemma pages_cover:
  fixes n :: nat and ps :: int
  assumes "0 < ps"
  defines "tp \<equiv> max 1 \<lceil>(of_nat n :: rat) / of_int ps\<rceil>"
  shows "n \<le> nat tp * nat ps"
proof -
  have "(of_nat n :: rat) / of_int ps \<le> of_int \<lceil>(of_nat n :: rat) / of_int ps\<rceil>"
    by (rule le_of_int_ceiling)
  also have "\<dots> \<le> of_int tp" by (simp add: tp_def)
  finally have "(of_nat n :: rat) \<le> of_int tp * of_int ps"
    using assms(1) by (simp add: pos_divide_le_eq)
  then have "(of_int (int n) :: rat) \<le> of_int (tp * ps)" by simp
  then have "int n \<le> tp * ps" by (simp only: of_int_le_iff)
  moreover have "0 \<le> tp" by (simp add: tp_def)
  ultimately have "nat (int n) \<le> nat (tp * ps)" by (intro nat_mono)
  then show ?thesis
    using \<open>0 \<le> tp\<close> by (simp add: nat_mult_distrib)
qed

lemma slice_index_unique:
  assumes "distinct cs" "0 < P"
    and "c \<in> set (take P (drop (k * P) cs))" "c \<in> set (take P (drop (k' * P) cs))"
  shows "k = k'"
proof -
  from assms(3) obtain i where i: "k * P \<le> i" "i < k * P + P" "i < length cs" "cs ! i = c"
    by (auto simp: set_take_drop)
  from assms(4) obtain j where j: "k' * P \<le> j" "j < k' * P + P" "j < length cs" "cs ! j = c"
    by (auto simp: set_take_drop)
  from i j assms(1) have "i = j" by (metis nth_eq_iff_index_eq)
  have "i div P = k" using i by (intro div_nat_eqI) (simp_all add: mult.commute)
  moreover have "j div P = k'" using j by (intro div_nat_eqI) (simp_all add: mult.commute)
  ultimately show ?thesis using \<open>i = j\<close> by simp
qed

text \<open>
  Claim C2. For a frame whose rows all have a city and a positive page size, every page
  from 1 to the page count is produced without error, the pages put one after the other
  hold each row of the frame as often as the frame does (none twice, none left out),
  every row is on exactly one page, and the show-all result holds the same rows.
\<close>

theorem pagination_coverage:
  assumes "\<forall>r\<in>set rows. CustLocation r \<noteq> None" and "0 < page_size"
  shows "\<exists>tp pages.
     1 \<le> tp \<and>
     (\<forall>p. 1 \<le> p \<and> p \<le> tp \<longrightarrow>
        (\<exists>v. paginate rows page_size False p = Inr v \<and>
             total_pages v = Some tp \<and> fdf v = pages p)) \<and>
     mset (concat (map pages [1..tp])) = mset rows \<and>
     (\<forall>r\<in>set rows. \<exists>!p. 1 \<le> p \<and> p \<le> tp \<and> r \<in> set (pages p)) \<and>
     (\<exists>w. paginate rows page_size True page = Inr w \<and>
          mset (fdf w) = mset (concat (map pages [1..tp])))"
proof -
  define cs where "cs = map Some (group_keys CustLocation rows)"
  define P where "P = nat page_size"
  define tp where "tp = max 1 \<lceil>(of_nat (length cs) :: rat) / of_int page_size\<rceil>"
  define T where "T = nat tp"
  define S where "S = (\<lambda>k. take P (drop (k * P) cs))"
  define pages where "pages = (\<lambda>p. filter (\<lambda>r. CustLocation r \<in> set (S (nat (p - 1)))) rows)"
  have tp1: "1 \<le> tp" by (simp add: tp_def)
  have tpT: "tp = int T" using tp1 by (simp add: T_def)
  have P0: "0 < P" using assms(2) by (simp add: P_def)
  have dcs: "distinct cs" by (simp add: cs_def distinct_map distinct_group_keys)
  have page: "\<exists>v. paginate rows page_size False p = Inr v \<and>
             total_pages v = Some tp \<and> fdf v = pages p" if "1 \<le> p" "p \<le> tp" for p
    using paginate_page_exact [OF assms that(1)] that(2)
    by (simp add: pages_def S_def P_def cs_def tp_def)
  have all: "concat (map S [0..<T]) = cs"
  proof -
    have "length cs \<le> T * P"
      unfolding T_def P_def tp_def using assms(2) by (rule pages_cover)
    then show ?thesis by (simp add: S_def concat_slices)
  qed
  have mem: "\<forall>r\<in>set rows. CustLocation r \<in> set cs"
    using assms(1) by (force simp: cs_def set_group_keys image_iff)
  have idx: "map pages [1..tp] = map (\<lambda>k. filter (\<lambda>r. CustLocation r \<in> set (S k)) rows) [0..<T]"
    by (simp add: tpT upto_as_upt pages_def comp_def)
  have cover: "mset (concat (map pages [1..tp])) = mset rows"
    unfolding idx using dcs mem by (intro mset_concat_filters) (simp_all add: all)
  have uniq: "\<forall>r\<in>set rows. \<exists>!p. 1 \<le> p \<and> p \<le> tp \<and> r \<in> set (pages p)"
  proof
    fix r assume r: "r \<in> set rows"
    with mem have "CustLocation r \<in> set (concat (map S [0..<T]))" by (simp add: all)
    then obtain k where k: "k < T" "CustLocation r \<in> set (S k)" by auto
    show "\<exists>!p. 1 \<le> p \<and> p \<le> tp \<and> r \<in> set (pages p)"
    proof (rule ex1I [of _ "int k + 1"])
      show "1 \<le> int k + 1 \<and> int k + 1 \<le> tp \<and> r \<in> set (pages (int k + 1))"
        using k r by (simp add: tpT pages_def)
    next
      fix p assume p: "1 \<le> p \<and> p \<le> tp \<and> r \<in> set (pages p)"
      then have "CustLocation r \<in> set (S (nat (p - 1)))" by (simp add: pages_def)
      with k(2) have e: "nat (p - 1) = k"
        unfolding S_def using dcs P0 by (intro slice_index_unique)
      from p have "int (nat (p - 1)) = p - 1" by simp
      then show "p = int k + 1" unfolding e by linarith
    qed
  qed
  have "paginate rows page_size True page =
      Inr \<lparr>fdf = rows, current_cities = map Some (group_keys CustLocation rows), total_pages = None\<rparr>"
    using assms(1) by (rule paginate_show_all)
  then have sa: "\<exists>w. paginate rows page_size True page = Inr w \<and>
          mset (fdf w) = mset (concat (map pages [1..tp]))"
    by (simp add: cover)
  from tp1 page cover uniq sa show ?thesis by blast
qed


theorem pagination_coverage_witness:
  "None \<notin> CustLocation ` set table_six_cities \<and> (0::int) < 5 \<and>
   (\<exists>pages.
      map_sum id fdf (paginate table_six_cities 5 False 1) = Inr (pages 1) \<and>
      map_sum id fdf (paginate table_six_cities 5 False 2) = Inr (pages 2) \<and>
      pages 1 = take 5 table_six_cities \<and>
      pages 2 = drop 5 table_six_cities \<and>
      mset (concat (map pages [1..2])) = mset table_six_cities)"
proof -
  have pres: "\<forall>r\<in>set table_six_cities. CustLocation r \<noteq> None"
    by (simp add: table_six_cities_def csv_row_def)
  have "(0::int) < 5" by simp
  from pagination_coverage [OF pres this, where page = 1]
  obtain tp pages where tp: "1 \<le> tp"
    and pg: "\<And>p. 1 \<le> p \<and> p \<le> tp \<Longrightarrow>
        \<exists>v. paginate table_six_cities 5 False p = Inr v \<and>
             total_pages v = Some tp \<and> fdf v = pages p"
    and cover: "mset (concat (map pages [1..tp])) = mset table_six_cities"
    by blast
  have c1: "map_sum id total_pages (paginate table_six_cities 5 False 1) = Inr (Some 2)"
    and f1: "map_sum id fdf (paginate table_six_cities 5 False 1) = Inr (take 5 table_six_cities)"
    and f2: "map_sum id fdf (paginate table_six_cities 5 False 2) = Inr (drop 5 table_six_cities)"
    by code_simp+
  from pg [of 1] tp obtain v1 where v1: "paginate table_six_cities 5 False 1 = Inr v1"
      "total_pages v1 = Some tp" "fdf v1 = pages 1" by auto
  with c1 have tp2: "tp = 2" by simp
  from pg [of 2] tp2 obtain v2 where v2: "paginate table_six_cities 5 False 2 = Inr v2"
      "fdf v2 = pages 2" by auto
  from v1 f1 have p1: "pages 1 = take 5 table_six_cities" by simp
  from v2 f2 have p2: "pages 2 = drop 5 table_six_cities" by simp
  from v1 v2 have "map_sum id fdf (paginate table_six_cities 5 False 1) = Inr (pages 1)"
    "map_sum id fdf (paginate table_six_cities 5 False 2) = Inr (pages 2)" by simp_all
  moreover from cover tp2 have "mset (concat (map pages [1..2])) = mset table_six_cities"
    by simp
  moreover from pres have "None \<notin> CustLocation ` set table_six_cities" by force
  ultimately show ?thesis using p1 p2 by (intro conjI exI [of _ pages]) simp_all
qed

section \<open>The exported file\<close>





section \<open>Top-N cities\<close>

text \<open>
  Four cities with 5, 5, 7 and 7 customers, in the row order C00, C01, C02, C03, and
  \<open>topn = 3\<close>. Breaking the tie between C00 and C01 by first appearance keeps C00. A
  sort that leaves equal totals in descending name order keeps C01 instead. And whatever
  order the sort leaves among equal totals, the script keeps the same three cities when
  the rows of C00 and C01 are exchanged, since \<^verbatim>\<open>groupby\<close> lists the cities by name
  before the sort, while first appearance then keeps C01: no sort agrees with the rule
  of first appearance on both tables.
\<close>

theorem top_n_tie_counterexample:
  "keep_cities rank_names_descending 3
       (select_rows table_two_ties (all_cities table_two_ties) [0])
     = [''C03'', ''C02'', ''C01''] \<and>
   spec_top_cities 3 (select_rows table_two_ties (all_cities table_two_ties) [0])
     = [''C02'', ''C03'', ''C00''] \<and>
   fdf_base rank_names_descending table_two_ties (all_cities table_two_ties) [0] (Some 3)
     = drop 1 table_two_ties \<and>
   spec_applyFilters table_two_ties (all_cities table_two_ties) [0] 3
     = take 1 table_two_ties @ drop 2 table_two_ties \<and>
   fdf_base rank_names_descending table_two_ties (all_cities table_two_ties) [0] (Some 3)
     \<noteq> spec_applyFilters table_two_ties (all_cities table_two_ties) [0] 3 \<and>
   (\<forall>rank.
      \<not> (fdf_base rank table_two_ties (all_cities table_two_ties) [0] (Some 3)
           = spec_applyFilters table_two_ties (all_cities table_two_ties) [0] 3 \<and>
         fdf_base rank table_two_ties_swapped (all_cities table_two_ties_swapped) [0] (Some 3)
           = spec_applyFilters table_two_ties_swapped
               (all_cities table_two_ties_swapped) [0] 3))"
proof -
  let ?A = "table_two_ties" and ?B = "table_two_ties_swapped"
  have 1: "keep_cities rank_names_descending 3 (select_rows ?A (all_cities ?A) [0])
             = [''C03'', ''C02'', ''C01'']"
    by code_simp
  have 2: "spec_top_cities 3 (select_rows ?A (all_cities ?A) [0]) = [''C02'', ''C03'', ''C00'']"
    by code_simp
  have 3: "fdf_base rank_names_descending ?A (all_cities ?A) [0] (Some 3) = drop 1 ?A"
    by code_simp
  have 4: "spec_applyFilters ?A (all_cities ?A) [0] 3 = take 1 ?A @ drop 2 ?A"
    by code_simp
  have 7: "spec_applyFilters ?B (all_cities ?B) [0] 3 = take 1 ?B @ drop 2 ?B"
    by code_simp
  have 5: "fdf_base rank_names_descending ?A (all_cities ?A) [0] (Some 3)
             \<noteq> spec_applyFilters ?A (all_cities ?A) [0] 3"
    unfolding 3 4 by (simp add: table_two_ties_def csv_row_def)
  have 6: "\<not> (fdf_base rank ?A (all_cities ?A) [0] (Some 3)
                 = spec_applyFilters ?A (all_cities ?A) [0] 3 \<and>
               fdf_base rank ?B (all_cities ?B) [0] (Some 3)
                 = spec_applyFilters ?B (all_cities ?B) [0] 3)" for rank
  proof -
    have bA: "select_rows ?A (all_cities ?A) [0] = ?A"
      and bB: "select_rows ?B (all_cities ?B) [0] = ?B"
      by code_simp+
    have "groupby_sum CustLocation CustomerCount ?A = groupby_sum CustLocation CustomerCount ?B"
      by code_simp
    then have K: "keep_cities rank 3 ?B = keep_cities rank 3 ?A"
      by (simp add: keep_cities_def city_totals_all_def)
    have fA: "fdf_base rank ?A (all_cities ?A) [0] (Some 3)
                = filter (\<lambda>r. isin (CustLocation r) (keep_cities rank 3 ?A)) ?A"
      and fB: "fdf_base rank ?B (all_cities ?B) [0] (Some 3)
                = filter (\<lambda>r. isin (CustLocation r) (keep_cities rank 3 ?A)) ?B"
      by (simp_all add: fdf_base_def bA bB K)
    show ?thesis
      unfolding fA fB 4 7
      by (auto simp: table_two_ties_def table_two_ties_swapped_def csv_row_def
          split: if_splits)
  qed
  from 1 2 3 4 5 6 show ?thesis by blast
qed

lemma take_drop_sorted_wrt:
  assumes "sorted_wrt R xs" "a \<in> set (take n xs)" "b \<in> set (drop n xs)"
  shows "R a b"
proof -
  have "sorted_wrt R (take n xs @ drop n xs)" using assms(1) by simp
  then show ?thesis using assms(2,3) unfolding sorted_wrt_append by blast
qed

lemma city_totals_all_entries:
  assumes "kv \<in> set (city_totals_all rank rows)"
  shows "fst kv \<in> set (group_keys CustLocation rows) \<and>
         snd kv = sum_list (dropna (map CustomerCount
                    (filter (\<lambda>r. CustLocation r = Some (fst kv)) rows)))"
  using assms
  by (auto simp: city_totals_all_def sort_values_desc_def groupby_sum_def sum_skipna_def
      group_rows_def)

lemma city_totals_all_keys:
  "mset (map fst (city_totals_all rank rows)) = mset (group_keys CustLocation rows)"
proof -
  have "mset (city_totals_all rank rows) = mset (groupby_sum CustLocation CustomerCount rows)"
    by (simp add: city_totals_all_def sort_values_desc_def)
  then have "mset (map fst (city_totals_all rank rows))
      = mset (map fst (groupby_sum CustLocation CustomerCount rows))"
    by (metis mset_map)
  then show ?thesis by (simp add: groupby_sum_def comp_def)
qed

lemma distinct_city_totals_all: "distinct (map fst (city_totals_all rank rows))"
  using city_totals_all_keys [of rank rows] distinct_group_keys [of CustLocation rows]
  by (metis mset_eq_imp_distinct_iff)

lemma sorted_city_totals_all:
  "sorted_wrt (\<lambda>a b. snd b \<le> snd a) (city_totals_all rank rows)"
proof -
  have "sorted (map (\<lambda>kv. - snd kv) (city_totals_all rank rows))"
    unfolding city_totals_all_def sort_values_desc_def by (rule sorted_sort_key)
  then show ?thesis by (simp add: sorted_map)
qed

text \<open>
  Where the values of a series with distinct entries are pairwise different, the sort
  has one possible result.
\<close>

lemma sort_values_desc_distinct:
  assumes "distinct s" "inj_on snd (set s)"
  shows "sort_values_desc rank s = sort_key (\<lambda>kv. - snd kv) s"
proof -
  let ?f = "\<lambda>kv :: 'a \<times> rat. - snd kv"
  let ?xs = "sort_values_desc rank s" and ?ys = "sort_key ?f s"
  have inj: "inj_on ?f (set s)"
    using assms(2) by (auto simp: inj_on_def)
  have sx: "set ?xs = set s" and sy: "set ?ys = set s"
    by (simp_all add: sort_values_desc_def)
  have dx: "distinct ?xs" and dy: "distinct ?ys"
    using assms(1) by (simp_all add: sort_values_desc_def)
  have "sorted (map ?f ?xs)"
    unfolding sort_values_desc_def by (rule sorted_sort_key)
  moreover have "distinct (map ?f ?xs)"
    using dx inj by (simp add: distinct_map sx)
  moreover have "sorted (map ?f ?ys)"
    by (rule sorted_sort_key)
  moreover have "distinct (map ?f ?ys)"
    using dy inj by (simp add: distinct_map sy)
  moreover have "set (map ?f ?xs) = set (map ?f ?ys)"
    by (simp add: sx sy)
  ultimately have "map ?f ?xs = map ?f ?ys"
    by (rule sorted_distinct_set_unique)
  moreover have "inj_on ?f (set ?xs \<union> set ?ys)"
    using inj by (simp add: sx sy)
  ultimately show ?thesis by (simp add: inj_on_map_eq_map)
qed

lemma keep_cities_distinct_totals:
  assumes "inj_on (\<lambda>c. sum_list (dropna (map CustomerCount
                    (filter (\<lambda>r. CustLocation r = Some c) rows))))
             {c. \<exists>r\<in>set rows. CustLocation r = Some c}"
  shows "keep_cities rank n rows = keep_cities rank' n rows"
proof -
  let ?s = "groupby_sum CustLocation CustomerCount rows"
  have d: "distinct ?s"
    using distinct_group_keys [of CustLocation rows]
    by (simp add: groupby_sum_def distinct_map inj_on_def)
  have "inj_on snd (set ?s)"
    using assms
    by (auto simp: groupby_sum_def inj_on_def set_group_keys sum_skipna_def group_rows_def)
  with d have "sort_values_desc rank ?s = sort_values_desc rank' ?s"
    by (simp add: sort_values_desc_distinct)
  then show ?thesis by (simp add: keep_cities_def city_totals_all_def)
qed

text \<open>
  Claim C1, amended. For a positive \<open>topn\<close> the base frame holds exactly the rows of
  the city and cluster selection whose city is one of the kept cities, in the original
  row order. The kept cities are \<open>topn\<close> of the cities of the selection (all of them
  when there are no more than \<open>topn\<close>, and then every selected row is kept), and no
  dropped city has a larger total customer count over the selected rows than a kept
  one. This holds for every order the sort may leave among cities of equal total; which
  of the cities tied at the cut are kept is the sort's choice, and where the totals are
  pairwise different the kept cities do not depend on it.
\<close>

theorem top_n_spec:
  "let base = select_rows df city_sel cluster_sel;
       cities = {c. \<exists>r\<in>set base. CustLocation r = Some c};
       total = (\<lambda>c. sum_list (dropna (map CustomerCount
                  (filter (\<lambda>r. CustLocation r = Some c) base))));
       kept = set (keep_cities rank n base)
   in 0 < n \<longrightarrow>
      fdf_base rank df city_sel cluster_sel (Some n)
        = filter (\<lambda>r. \<exists>c\<in>kept. CustLocation r = Some c) base \<and>
      kept \<subseteq> cities \<and>
      card kept = min n (card cities) \<and>
      (\<forall>c\<in>kept. \<forall>d\<in>cities - kept. total d \<le> total c) \<and>
      (inj_on total cities \<longrightarrow>
         fdf_base rank' df city_sel cluster_sel (Some n)
           = fdf_base rank df city_sel cluster_sel (Some n)) \<and>
      (card cities \<le> n \<longrightarrow> fdf_base rank df city_sel cluster_sel (Some n) = base)"
proof -
  define base where "base = select_rows df city_sel cluster_sel"
  define cities where "cities = {c. \<exists>r\<in>set base. CustLocation r = Some c}"
  define total where "total = (\<lambda>c. sum_list (dropna (map CustomerCount
                  (filter (\<lambda>r. CustLocation r = Some c) base))))"
  define L where "L = city_totals_all rank base"
  define kept where "kept = set (keep_cities rank n base)"
  have keys: "set (group_keys CustLocation base) = cities"
    by (simp add: cities_def set_group_keys)
  have kept_eq: "kept = fst ` set (take n L)"
    by (simp add: kept_def keep_cities_def L_def)
  have dL: "distinct (map fst L)" unfolding L_def by (rule distinct_city_totals_all)
  have lenL: "length L = card cities"
    using distinct_card [OF distinct_group_keys, of CustLocation base] keys
    by (simp add: L_def length_city_totals_all)
  have snd_total: "\<And>kv. kv \<in> set L \<Longrightarrow> snd kv = total (fst kv)"
    using city_totals_all_entries [of _ rank base] by (simp add: L_def total_def)
  have isin_kept: "\<And>r. isin (CustLocation r) (keep_cities rank n base)
                       \<longleftrightarrow> (\<exists>c\<in>kept. CustLocation r = Some c)"
    by (auto simp: isin_iff kept_def)
  have fdf: "0 < n \<Longrightarrow> fdf_base rank df city_sel cluster_sel (Some n)
        = filter (\<lambda>r. \<exists>c\<in>kept. CustLocation r = Some c) base"
    by (simp add: fdf_base_def Let_def base_def [symmetric] isin_kept)
  have sub: "kept \<subseteq> cities"
    unfolding kept_def keys [symmetric] by (rule keep_cities_subset)
  have card: "card kept = min n (card cities)"
  proof -
    have "distinct (map fst (take n L))"
      using dL by (simp add: take_map [symmetric] distinct_take)
    then have "card (set (map fst (take n L))) = length (take n L)"
      using distinct_card by fastforce
    then show ?thesis by (simp add: kept_eq lenL min.commute)
  qed
  have order: "\<forall>c\<in>kept. \<forall>d\<in>cities - kept. total d \<le> total c"
  proof (intro ballI)
    fix c d assume c: "c \<in> kept" and d: "d \<in> cities - kept"
    from c obtain a where a: "a \<in> set (take n L)" "fst a = c" by (auto simp: kept_eq)
    have "cities = fst ` set L"
      using fst_city_totals_all [of rank base] keys by (simp add: L_def)
    with d obtain b where b: "b \<in> set L" "fst b = d" by auto
    have "b \<notin> set (take n L)" using d b by (auto simp: kept_eq)
    moreover have "set L = set (take n L) \<union> set (drop n L)"
      by (metis append_take_drop_id set_append)
    ultimately have bd: "b \<in> set (drop n L)" using b(1) by blast
    have "snd b \<le> snd a"
      using take_drop_sorted_wrt [OF sorted_city_totals_all [of rank base, folded L_def] a(1) bd] .
    moreover have "snd a = total c" using a snd_total in_set_takeD by fastforce
    moreover have "snd b = total d" using b snd_total by fastforce
    ultimately show "total d \<le> total c" by simp
  qed
  have indep: "fdf_base rank' df city_sel cluster_sel (Some n)
                 = fdf_base rank df city_sel cluster_sel (Some n)"
    if "inj_on total cities"
  proof -
    have "keep_cities rank' n base = keep_cities rank n base"
      using that unfolding total_def cities_def by (rule keep_cities_distinct_totals)
    then show ?thesis by (simp add: fdf_base_def Let_def base_def [symmetric])
  qed
  have all: "fdf_base rank df city_sel cluster_sel (Some n) = base" if "0 < n" "card cities \<le> n"
  proof -
    have "length (group_keys CustLocation base) \<le> n"
      using that(2) lenL by (simp add: L_def length_city_totals_all)
    then have "kept = cities"
      unfolding kept_def keys [symmetric] by (rule keep_cities_all)
    have "filter (\<lambda>r. \<exists>c\<in>kept. CustLocation r = Some c) base = base"
    proof (rule filter_id)
      fix r assume r: "r \<in> set base"
      then obtain c where c: "CustLocation r = Some c"
        using select_rows_city [of r df city_sel cluster_sel] by (auto simp: base_def)
      with r have "c \<in> cities" unfolding cities_def by blast
      with c \<open>kept = cities\<close> show "\<exists>c\<in>kept. CustLocation r = Some c" by simp
    qed
    with fdf [OF that(1)] show ?thesis by simp
  qed
  show ?thesis
    unfolding Let_def base_def [symmetric] cities_def [symmetric] kept_def [symmetric]
  proof (intro impI conjI)
    assume n: "0 < n"
    show "fdf_base rank df city_sel cluster_sel (Some n)
            = filter (\<lambda>r. \<exists>c\<in>kept. CustLocation r = Some c) base"
      using n by (rule fdf)
    show "kept \<subseteq> cities" by (rule sub)
    show "card kept = min n (card cities)" by (rule card)
    show "\<forall>c\<in>kept. \<forall>d\<in>cities - kept.
            sum_list (dropna (map CustomerCount (filter (\<lambda>r. CustLocation r = Some d) base)))
              \<le> sum_list (dropna (map CustomerCount (filter (\<lambda>r. CustLocation r = Some c) base)))"
      using order unfolding total_def .
    show "fdf_base rank' df city_sel cluster_sel (Some n)
            = fdf_base rank df city_sel cluster_sel (Some n)"
      if "inj_on (\<lambda>c. sum_list (dropna (map CustomerCount
                    (filter (\<lambda>r. CustLocation r = Some c) base)))) cities"
      using that unfolding total_def [symmetric] by (rule indep)
    assume "card cities \<le> n"
    with n show "fdf_base rank df city_sel cluster_sel (Some n) = base" by (rule all)
  qed
qed

theorem top_n_spec_witness:
  "(0::nat) < 2 \<and>
   (\<forall>rank. set (keep_cities rank 2 (select_rows table_thirds (all_cities table_thirds) [1]))
      = {''A'', ''B''}) \<and>
   (\<forall>rank. fdf_base rank table_thirds (all_cities table_thirds) [1] (Some 2)
      = take 2 table_thirds) \<and>
   inj_on (\<lambda>c. sum_list (dropna (map CustomerCount (filter (\<lambda>r. CustLocation r = Some c)
              (select_rows table_thirds (all_cities table_thirds) [1])))))
     {c. \<exists>r\<in>set (select_rows table_thirds (all_cities table_thirds) [1]).
            CustLocation r = Some c} \<and>
   (\<forall>rank rank'. fdf_base rank' table_thirds (all_cities table_thirds) [1] (Some 2)
      = fdf_base rank table_thirds (all_cities table_thirds) [1] (Some 2)) \<and>
   card {c. \<exists>r\<in>set (select_rows table_thirds (all_cities table_thirds) [1]).
            CustLocation r = Some c} \<le> 3 \<and>
   (\<forall>rank. fdf_base rank table_thirds (all_cities table_thirds) [1] (Some 3)
      = table_thirds) \<and>
   (\<forall>rank. {''C02'', ''C03''}
        \<subseteq> set (keep_cities rank 3 (select_rows table_two_ties (all_cities table_two_ties) [0])) \<and>
      card (set (keep_cities rank 3
        (select_rows table_two_ties (all_cities table_two_ties) [0]))) = 3)"
proof -
  let ?T = "table_thirds" and ?U = "table_two_ties"
  let ?total = "\<lambda>t c. sum_list (dropna (map CustomerCount
                         (filter (\<lambda>r. CustLocation r = Some c) t)))"
  have bT: "select_rows ?T (all_cities ?T) [1] = ?T"
    and bU: "select_rows ?U (all_cities ?U) [0] = ?U"
    by code_simp+
  have "group_keys CustLocation ?T = [''A'', ''B'', ''C'']"
    and "group_keys CustLocation ?U = [''C00'', ''C01'', ''C02'', ''C03'']"
    by code_simp+
  then have cT: "{c. \<exists>r\<in>set ?T. CustLocation r = Some c} = {''A'', ''B'', ''C''}"
    and cU: "{c. \<exists>r\<in>set ?U. CustLocation r = Some c} = {''C00'', ''C01'', ''C02'', ''C03''}"
    using set_group_keys [of CustLocation ?T] set_group_keys [of CustLocation ?U] by simp_all
  have tT: "?total ?T ''A'' = 10" "?total ?T ''B'' = 20" "?total ?T ''C'' = 5"
    by (simp_all add: table_thirds_def csv_row_def)
  have tU: "?total ?U ''C00'' = 5" "?total ?U ''C01'' = 5" "?total ?U ''C02'' = 7"
    "?total ?U ''C03'' = 7"
    by (simp_all add: table_two_ties_def csv_row_def)
  have inj: "inj_on (?total ?T) {''A'', ''B'', ''C''}"
    by (simp add: tT)
  have card3: "card {''A'', ''B'', ''C''} = 3" by simp
  have card4: "card {''C00'', ''C01'', ''C02'', ''C03''} = 4" by simp
  have kT: "set (keep_cities rank 2 ?T) = {''A'', ''B''}"
    and fT: "fdf_base rank ?T (all_cities ?T) [1] (Some 2) = take 2 ?T" for rank
  proof -
    define kept where "kept = set (keep_cities rank 2 ?T)"
    note sp = top_n_spec [where n = 2 and rank = rank and df = ?T and city_sel = "all_cities ?T"
        and cluster_sel = "[1]" and rank' = "\<lambda>_. 0",
        unfolded Let_def bT cT card3, folded kept_def]
    have "(0::nat) < 2" by simp
    with sp have sub: "kept \<subseteq> {''A'', ''B'', ''C''}" and card: "card kept = 2"
      and ord: "\<forall>c\<in>kept. \<forall>d\<in>{''A'', ''B'', ''C''} - kept. ?total ?T d \<le> ?total ?T c"
      and ind: "fdf_base (\<lambda>_. 0) ?T (all_cities ?T) [1] (Some 2)
                  = fdf_base rank ?T (all_cities ?T) [1] (Some 2)"
      using inj by simp_all
    have "''C'' \<notin> kept"
    proof
      assume C: "''C'' \<in> kept"
      have "\<not> {''A'', ''B''} \<subseteq> kept"
      proof
        assume "{''A'', ''B''} \<subseteq> kept"
        with C sub have "kept = {''A'', ''B'', ''C''}" by blast
        with card show False by simp
      qed
      then obtain d where d: "d \<in> {''A'', ''B''}" "d \<notin> kept" by blast
      then have "?total ?T d \<le> ?total ?T ''C''" using ord C by blast
      with d(1) show False by (auto simp: tT)
    qed
    with sub have "kept \<subseteq> {''A'', ''B''}" by blast
    moreover have "card {''A'', ''B''} = 2" by simp
    ultimately have "kept = {''A'', ''B''}"
      using card by (metis card_subset_eq finite.emptyI finite.insertI)
    then show "set (keep_cities rank 2 ?T) = {''A'', ''B''}" by (simp add: kept_def)
    have "fdf_base (\<lambda>_. 0) ?T (all_cities ?T) [1] (Some 2) = take 2 ?T" by code_simp
    with ind show "fdf_base rank ?T (all_cities ?T) [1] (Some 2) = take 2 ?T" by simp
  qed
  have aT: "fdf_base rank ?T (all_cities ?T) [1] (Some 3) = ?T" for rank
  proof -
    have "(0::nat) < 3" "(3::nat) \<le> 3" by simp_all
    with top_n_spec [where n = 3 and rank = rank and df = ?T and city_sel = "all_cities ?T"
        and cluster_sel = "[1]" and rank' = rank, unfolded Let_def bT cT card3]
    show ?thesis by blast
  qed
  have kU: "{''C02'', ''C03''} \<subseteq> set (keep_cities rank 3 ?U) \<and>
            card (set (keep_cities rank 3 ?U)) = 3" for rank
  proof -
    define kept where "kept = set (keep_cities rank 3 ?U)"
    note sp = top_n_spec [where n = 3 and rank = rank and df = ?U and city_sel = "all_cities ?U"
        and cluster_sel = "[0]" and rank' = rank,
        unfolded Let_def bU cU card4, folded kept_def]
    have "(0::nat) < 3" by simp
    with sp have sub: "kept \<subseteq> {''C00'', ''C01'', ''C02'', ''C03''}" and card: "card kept = 3"
      and ord: "\<forall>c\<in>kept. \<forall>d\<in>{''C00'', ''C01'', ''C02'', ''C03''} - kept.
                  ?total ?U d \<le> ?total ?U c"
      by simp_all
    have "d \<in> kept" if d: "d \<in> {''C02'', ''C03''}" for d
    proof (rule ccontr)
      assume n: "d \<notin> kept"
      have "?total ?U d = 7" using d by (auto simp: tU)
      moreover have "d \<in> {''C00'', ''C01'', ''C02'', ''C03''} - kept" using d n by auto
      ultimately have "\<forall>c\<in>kept. 7 \<le> ?total ?U c"
        using ord by metis
      then have "''C00'' \<notin> kept" "''C01'' \<notin> kept" by (auto simp: tU)
      with sub n d have "kept \<subseteq> {''C02'', ''C03''} - {d}" by blast
      then have "card kept \<le> card ({''C02'', ''C03''} - {d})"
        by (intro card_mono) simp_all
      also have "\<dots> \<le> 1" using d by auto
      finally show False using card by simp
    qed
    with card show ?thesis by (auto simp: kept_def)
  qed
  have le3: "card {''A'', ''B'', ''C''} \<le> (3::nat)" by simp
  show ?thesis
    unfolding bT bU cT
    using kT fT inj aT kU le3 by simp
qed

end
